theory Spec2Isabelle
  imports Complex_Main "HOL-Library.Char_ord" "HOL-Library.List_Lexorder"
    "HOL-Library.Product_Lexorder" "HOL-Library.Multiset"
begin

section \<open>Errors, events and strings\<close>

text \<open>
  The error classes of \<^verbatim>\<open>utils/errors.ts\<close>. Each constructor keeps the message
  that the TypeScript constructor receives; \<open>error_message\<close> is the \<^verbatim>\<open>message\<close>
  property, which every subclass prefixes with its own tag. \<open>RawError\<close> stands for
  an error object that is none of the application's classes (a driver or network
  exception that propagates unwrapped).
\<close>

datatype error =
    AppError string nat
  | WBApiError string nat
  | DatabaseError string
  | GoogleSheetsError string
  | ValidationError string
  | RawError string

fun error_message :: "error \<Rightarrow> string" where
  "error_message (AppError m c) = m"
| "error_message (WBApiError m c) = ''WB API Error: '' @ m"
| "error_message (DatabaseError m) = ''Database Error: '' @ m"
| "error_message (GoogleSheetsError m) = ''Google Sheets Error: '' @ m"
| "error_message (ValidationError m) = ''Validation Error: '' @ m"
| "error_message (RawError m) = m"

fun statusCode :: "error \<Rightarrow> nat" where
  "statusCode (AppError m c) = c"
| "statusCode (WBApiError m c) = c"
| "statusCode (DatabaseError m) = 500"
| "statusCode (GoogleSheetsError m) = 500"
| "statusCode (ValidationError m) = 400"
| "statusCode (RawError m) = 500"

text \<open>
  What a function does besides returning: the calls it makes to the outside (remote
  API, timer, database, sheets) and the log lines the claims speak of. Every
  effectful function of the model returns the list of its events, in order.
  Purely informational log lines are left out.
\<close>

datatype event =
    Call_ApiFetch string
  | Call_Sleep nat
  | Call_DbBegin
  | Call_DbInsertChunk nat nat
  | Call_DbCommit
  | Call_DbRollback
  | Call_DbSelectTariffs string
  | Call_DbSelectIds
  | Call_SheetClear string
  | Call_SheetUpdate string nat
  | Warn_AttemptFailed nat nat string
  | Warn_Truncating string nat
  | Warn_InvalidCoefficient string
  | Warn_EmptyUpsert
  | Warn_NoSpreadsheets
  | Warn_NoTariffs
  | Info_SheetUpdated string
  | Error_SheetFailed string error
  | Info_Summary nat nat nat
  | Error_TransformFailed nat
  | Error_Logged string

text \<open>
  A JavaScript string is modelled as a list of code units below 256. The white space
  that \<^verbatim>\<open>trim\<close> and \<^verbatim>\<open>parseInt\<close> strip is, in that range,
  TAB, LF, VT, FF, CR, SP and NBSP.
\<close>

definition is_space :: "char \<Rightarrow> bool" where
  "is_space c = (let n = (of_char c :: nat) in
     n = 9 \<or> n = 10 \<or> n = 11 \<or> n = 12 \<or> n = 13 \<or> n = 32 \<or> n = 160)"

definition is_digit :: "char \<Rightarrow> bool" where
  "is_digit c = (let n = (of_char c :: nat) in 48 \<le> n \<and> n \<le> 57)"

definition trim :: "string \<Rightarrow> string" where
  "trim s = rev (dropWhile is_space (rev (dropWhile is_space s)))"

definition digit_value :: "char \<Rightarrow> nat" where
  "digit_value c = of_char c - 48"

definition digits_value :: "string \<Rightarrow> nat" where
  "digits_value z = foldl (\<lambda>a c. 10 * a + digit_value c) 0 z"

text \<open>
  The values of a JavaScript number that occur here: an integer-valued double or
  one of the two infinities (NaN is kept apart, as the absence of a number). The
  order is the numeric one.
\<close>

datatype number = NegInfinity | Finite int | PosInfinity

fun number_rank :: "number \<Rightarrow> nat \<times> int" where
  "number_rank NegInfinity = (0, 0)"
| "number_rank (Finite i) = (1, i)"
| "number_rank PosInfinity = (2, 0)"

instantiation number :: linorder
begin

definition less_eq_number :: "number \<Rightarrow> number \<Rightarrow> bool" where
  "less_eq_number a b = (number_rank a \<le> number_rank b)"

definition less_number :: "number \<Rightarrow> number \<Rightarrow> bool" where
  "less_number a b = (number_rank a < number_rank b)"

instance
proof
  fix x y z :: number
  show "(x < y) = (x \<le> y \<and> \<not> y \<le> x)"
    unfolding less_eq_number_def less_number_def by auto
  show "x \<le> x"
    unfolding less_eq_number_def by simp
  show "x \<le> y \<Longrightarrow> y \<le> z \<Longrightarrow> x \<le> z"
    unfolding less_eq_number_def by simp
  show "x \<le> y \<Longrightarrow> y \<le> x \<Longrightarrow> x = y"
    unfolding less_eq_number_def by (cases x; cases y) auto
  show "x \<le> y \<or> y \<le> x"
    unfolding less_eq_number_def by auto
qed

end

text \<open>
  The conversion of a natural number to a double, rounding to nearest, ties to
  even: below \<open>2^53\<close> every integer is a double; above, the 53 leading bits are
  kept and the rest is rounded; a result of \<open>2^1024\<close> or more is the overflow to
  infinity (\<open>None\<close>).
\<close>

function bit_length :: "nat \<Rightarrow> nat" where
  "bit_length n = (if n = 0 then 0 else Suc (bit_length (n div 2)))"
  by pat_completeness auto
termination
  by (relation "measure id") auto

definition to_double :: "nat \<Rightarrow> nat option" where
  "to_double n =
     (if n < 2 ^ 53 then Some n
      else let shift = bit_length n - 53;
               q = n div 2 ^ shift;
               r = n mod 2 ^ shift;
               half = 2 ^ (shift - 1);
               m = (if half < r \<or> (r = half \<and> odd q) then q + 1 else q) * 2 ^ shift
           in if 2 ^ 1024 \<le> m then None else Some m)"

text \<open>
  \<^verbatim>\<open>parseInt(value, 10)\<close>: skip leading white space, read an optional sign, then the
  longest run of decimal digits; with no digit the result is NaN (\<open>None\<close>), and
  whatever follows the digits is ignored. The result is the double nearest to the
  signed integer that the digits denote, an infinity when that is out of range.
  (For more than 20 significant digits the language allows an implementation to
  be less exact; the correctly rounded value taken here is what V8 returns.)
\<close>

definition leading_digits :: "string \<Rightarrow> string" where
  "leading_digits v =
     (case dropWhile is_space v of
        [] \<Rightarrow> []
      | c # cs \<Rightarrow> takeWhile is_digit (if c = CHR ''-'' \<or> c = CHR ''+'' then cs else c # cs))"

definition parseInt :: "string \<Rightarrow> number option" where
  "parseInt v =
     (let z = leading_digits v;
          neg = (case dropWhile is_space v of [] \<Rightarrow> False | c # cs \<Rightarrow> c = CHR ''-'')
      in if z = [] then None
         else Some (case to_double (digits_value z) of
                      None \<Rightarrow> (if neg then NegInfinity else PosInfinity)
                    | Some m \<Rightarrow> Finite (if neg then - int m else int m)))"

function string_of_nat :: "nat \<Rightarrow> string" where
  "string_of_nat n =
     (if n < 10 then [char_of (48 + n)]
      else string_of_nat (n div 10) @ [char_of (48 + n mod 10)])"
  by pat_completeness auto
termination
  by (relation "measure id") auto

section \<open>Remote tariff client: normalization\<close>

record WBWarehouseTariff =
  warehouseName :: string
  geoName :: string
  boxDeliveryBase :: string
  boxDeliveryLiter :: string
  boxDeliveryCoefExpr :: string
  boxDeliveryMarketplaceBase :: string
  boxDeliveryMarketplaceLiter :: string
  boxDeliveryMarketplaceCoefExpr :: string
  boxStorageBase :: string
  boxStorageLiter :: string
  boxStorageCoefExpr :: string

text \<open>
  The row types of \<^verbatim>\<open>types/tariffs.ts\<close>. The columns that the export query selects
  (\<open>TariffExportRow\<close>) are the first part of a \<open>BoxTariff\<close>, so the three row
  types share their field names; a column that may hold SQL \<^verbatim>\<open>NULL\<close> is an option.
  A coefficient has the TypeScript type \<^verbatim>\<open>number | null\<close>.
\<close>

record TariffExportRow =
  warehouse_name :: string
  geo_name :: "string option"
  box_delivery_coef :: "number option"
  box_delivery_base :: "string option"
  box_delivery_liter :: "string option"
  box_storage_coef :: "number option"
  box_storage_base :: "string option"
  box_storage_liter :: "string option"

record BoxTariff = TariffExportRow +
  date :: string
  box_delivery_marketplace_base :: "string option"
  box_delivery_marketplace_liter :: "string option"
  box_delivery_marketplace_coef :: "number option"

definition MAX_WAREHOUSE_NAME_LENGTH :: nat where
  "MAX_WAREHOUSE_NAME_LENGTH = 255"

definition MAX_GEO_NAME_LENGTH :: nat where
  "MAX_GEO_NAME_LENGTH = 255"

text \<open>
  \<^verbatim>\<open>validateAndTrim\<close>: an empty value and a value of white space only raise a
  \<open>ValidationError\<close>; a trimmed value longer than the limit is cut to the limit,
  with a warning.
\<close>

definition validateAndTrim :: "string \<Rightarrow> string \<Rightarrow> nat \<Rightarrow> event list \<times> (error + string)" where
  "validateAndTrim v fieldName maxLength =
     (if v = [] then ([], Inl (ValidationError (fieldName @ '' must be a non-empty string'')))
      else let trimmed = trim v in
        if length trimmed = 0
        then ([], Inl (ValidationError (fieldName @ '' cannot be empty or whitespace only'')))
        else if length trimmed > maxLength
        then ([Warn_Truncating fieldName maxLength], Inr (take maxLength trimmed))
        else ([], Inr trimmed))"

text \<open>\<^verbatim>\<open>parseValue\<close>: the empty string and \<^verbatim>\<open>"-"\<close> are null, anything else is trimmed.\<close>

definition parseValue :: "string \<Rightarrow> string option" where
  "parseValue v = (if v = [] \<or> v = ''-'' then None else Some (trim v))"

text \<open>
  \<^verbatim>\<open>parseCoefficient\<close>: the empty string and \<^verbatim>\<open>"-"\<close> are null; otherwise
  \<^verbatim>\<open>parseInt\<close>, where NaN is logged and becomes null.
\<close>

definition parseCoefficient :: "string \<Rightarrow> event list \<times> number option" where
  "parseCoefficient v =
     (if v = [] \<or> v = ''-'' then ([], None)
      else case parseInt v of
             None \<Rightarrow> ([Warn_InvalidCoefficient v], None)
           | Some n \<Rightarrow> ([], Some n))"

text \<open>
  The body of the \<^verbatim>\<open>map\<close> callback of \<^verbatim>\<open>transformToDbFormat\<close>, for the entry at
  \<open>index\<close>: the fields are computed in the order of the object literal; an error
  raised by \<^verbatim>\<open>validateAndTrim\<close> is logged with the index and raised again. (The
  record lists the export columns first; the values are those of the source.)
\<close>

definition transformEntry :: "string \<Rightarrow> nat \<Rightarrow> WBWarehouseTariff \<Rightarrow> event list \<times> (error + BoxTariff)" where
  "transformEntry d index t =
     (case validateAndTrim (warehouseName t) ''warehouseName'' MAX_WAREHOUSE_NAME_LENGTH of
        (ev1, Inl e) \<Rightarrow> (ev1 @ [Error_TransformFailed index], Inl e)
      | (ev1, Inr name) \<Rightarrow>
          (case (if geoName t \<noteq> []
                 then (case validateAndTrim (geoName t) ''geoName'' MAX_GEO_NAME_LENGTH of
                         (ev, Inl e) \<Rightarrow> (ev, Inl e)
                       | (ev, Inr g) \<Rightarrow> (ev, Inr (Some g)))
                 else ([], Inr None)) of
             (ev2, Inl e) \<Rightarrow> (ev1 @ ev2 @ [Error_TransformFailed index], Inl e)
           | (ev2, Inr geo) \<Rightarrow>
               (let c1 = parseCoefficient (boxDeliveryCoefExpr t);
                    c2 = parseCoefficient (boxDeliveryMarketplaceCoefExpr t);
                    c3 = parseCoefficient (boxStorageCoefExpr t)
                in (ev1 @ ev2 @ fst c1 @ fst c2 @ fst c3,
                    Inr \<lparr> warehouse_name = name,
                          geo_name = geo,
                          box_delivery_coef = snd c1,
                          box_delivery_base = parseValue (boxDeliveryBase t),
                          box_delivery_liter = parseValue (boxDeliveryLiter t),
                          box_storage_coef = snd c3,
                          box_storage_base = parseValue (boxStorageBase t),
                          box_storage_liter = parseValue (boxStorageLiter t),
                          date = d,
                          box_delivery_marketplace_base = parseValue (boxDeliveryMarketplaceBase t),
                          box_delivery_marketplace_liter = parseValue (boxDeliveryMarketplaceLiter t),
                          box_delivery_marketplace_coef = snd c2 \<rparr>))))"

text \<open>
  \<^verbatim>\<open>tariffs.map(...)\<close>: the entries are transformed in order; the first error
  aborts the whole call.
\<close>

fun transformFrom :: "string \<Rightarrow> nat \<Rightarrow> WBWarehouseTariff list \<Rightarrow> event list \<times> (error + BoxTariff list)" where
  "transformFrom d index [] = ([], Inr [])"
| "transformFrom d index (t # ts) =
     (case transformEntry d index t of
        (ev, Inl e) \<Rightarrow> (ev, Inl e)
      | (ev, Inr r) \<Rightarrow>
          (case transformFrom d (Suc index) ts of
             (ev', Inl e) \<Rightarrow> (ev @ ev', Inl e)
           | (ev', Inr rs) \<Rightarrow> (ev @ ev', Inr (r # rs))))"

definition transformToDbFormat :: "WBWarehouseTariff list \<Rightarrow> string \<Rightarrow> event list \<times> (error + BoxTariff list)" where
  "transformToDbFormat tariffs d = transformFrom d 0 tariffs"

section \<open>Remote tariff client: fetch with retry\<close>

definition API_MAX_RETRIES :: nat where
  "API_MAX_RETRIES = 3"

definition API_RETRY_DELAY :: nat where
  "API_RETRY_DELAY = 1000"

definition REQUEST_TIMEOUT :: nat where
  "REQUEST_TIMEOUT = 30000"

text \<open>
  What one HTTP request can come to: a response with status 2xx whose JSON body has
  the tariff list or lacks it, a response with another status (status, body text,
  status text), the abort of the timeout, or any other exception.
\<close>

datatype http_outcome =
    Http_Ok "WBWarehouseTariff list option"
  | Http_Status nat string string
  | Http_Abort
  | Http_Throw string

fun fetchWithTimeout :: "http_outcome \<Rightarrow> error + WBWarehouseTariff list" where
  "fetchWithTimeout (Http_Status st body statusText) =
     Inl (WBApiError (''HTTP '' @ string_of_nat st @ '': '' @ (if body \<noteq> [] then body else statusText)) st)"
| "fetchWithTimeout (Http_Ok None) = Inl (WBApiError ''Invalid response structure from WB API'' 500)"
| "fetchWithTimeout (Http_Ok (Some l)) = Inr l"
| "fetchWithTimeout Http_Abort =
     Inl (WBApiError (''Request timeout after '' @ string_of_nat REQUEST_TIMEOUT @ ''ms'') 408)"
| "fetchWithTimeout (Http_Throw m) = Inl (WBApiError (''Network error: '' @ m) 503)"

text \<open>
  \<^verbatim>\<open>validateDate\<close>. The pattern is \<^verbatim>\<open>^\d{4}-\d{2}-\d{2}$\<close>. Whether the runtime's
  \<^verbatim>\<open>Date\<close> accepts a string of that shape is left to the parameter \<open>date_parses\<close>.
\<close>

definition DATE_FORMAT :: "string \<Rightarrow> bool" where
  "DATE_FORMAT s =
     (case s of
        [y1, y2, y3, y4, h1, m1, m2, h2, d1, d2] \<Rightarrow>
          is_digit y1 \<and> is_digit y2 \<and> is_digit y3 \<and> is_digit y4 \<and> h1 = CHR ''-'' \<and>
          is_digit m1 \<and> is_digit m2 \<and> h2 = CHR ''-'' \<and> is_digit d1 \<and> is_digit d2
      | _ \<Rightarrow> False)"

definition validateDate :: "(string \<Rightarrow> bool) \<Rightarrow> string \<Rightarrow> error + unit" where
  "validateDate date_parses d =
     (if d = [] then Inl (ValidationError ''Date must be a non-empty string'')
      else if \<not> DATE_FORMAT d
      then Inl (ValidationError (''Invalid date format: '' @ d @ ''. Expected YYYY-MM-DD''))
      else if \<not> date_parses d then Inl (ValidationError (''Invalid date value: '' @ d))
      else Inr ())"

text \<open>\<^verbatim>\<open>lastError?.message\<close> inside a template string.\<close>

definition lastError_message :: "error option \<Rightarrow> string" where
  "lastError_message lastError = (case lastError of None \<Rightarrow> ''undefined'' | Some e \<Rightarrow> error_message e)"

text \<open>
  The retry loop of \<^verbatim>\<open>fetchBoxTariffs\<close>, from \<open>attempt\<close> on. \<open>api d k\<close> is the
  outcome of the request of attempt \<open>k\<close>.
\<close>

function fetchAttempts ::
  "(string \<Rightarrow> nat \<Rightarrow> http_outcome) \<Rightarrow> nat \<Rightarrow> nat \<Rightarrow> string \<Rightarrow> nat \<Rightarrow> error option
     \<Rightarrow> event list \<times> (error + WBWarehouseTariff list)" where
  "fetchAttempts api maxRetries retryDelay d attempt lastError =
     (if attempt \<le> maxRetries then
        (case fetchWithTimeout (api d attempt) of
           Inr tariffs \<Rightarrow> ([Call_ApiFetch d], Inr tariffs)
         | Inl e \<Rightarrow>
             (let ev = [Call_ApiFetch d, Warn_AttemptFailed attempt maxRetries (error_message e)]
                     @ (if attempt < maxRetries then [Call_Sleep (retryDelay * attempt)] else []);
                  rest = fetchAttempts api maxRetries retryDelay d (Suc attempt) (Some e)
              in (ev @ fst rest, snd rest)))
      else
        (let errorMessage = ''Failed to fetch tariffs after '' @ string_of_nat maxRetries
                            @ '' attempts: '' @ lastError_message lastError
         in ([Error_Logged errorMessage], Inl (WBApiError errorMessage 503))))"
  by pat_completeness auto
termination
  by (relation "measure (\<lambda>(api, maxRetries, retryDelay, d, attempt, lastError). Suc maxRetries - attempt)") auto

definition fetchBoxTariffs ::
  "(string \<Rightarrow> bool) \<Rightarrow> (string \<Rightarrow> nat \<Rightarrow> http_outcome) \<Rightarrow> nat \<Rightarrow> nat \<Rightarrow> string
     \<Rightarrow> event list \<times> (error + WBWarehouseTariff list)" where
  "fetchBoxTariffs date_parses api maxRetries retryDelay d =
     (case validateDate date_parses d of
        Inl e \<Rightarrow> ([], Inl e)
      | Inr _ \<Rightarrow> fetchAttempts api maxRetries retryDelay d 1 None)"

section \<open>Destination exporter\<close>

definition SHEETS_MAX_RETRIES :: nat where
  "SHEETS_MAX_RETRIES = 3"

definition SHEETS_RETRY_DELAY :: nat where
  "SHEETS_RETRY_DELAY = 2000"

definition SHEET_NAME :: string where
  "SHEET_NAME = ''stocks_coefs''"

definition validateSpreadsheetId :: "string \<Rightarrow> error + unit" where
  "validateSpreadsheetId spreadsheetId =
     (if spreadsheetId = [] then Inl (ValidationError ''Spreadsheet ID must be a non-empty string'')
      else if length (trim spreadsheetId) = 0 then Inl (ValidationError ''Spreadsheet ID cannot be empty'')
      else if length spreadsheetId < 20
      then Inl (ValidationError (''Spreadsheet ID seems too short: '' @ spreadsheetId))
      else Inr ())"

text \<open>
  A failed call of the sheets API: the \<^verbatim>\<open>code\<close> of the thrown object, when it has
  one, and its message.
\<close>

type_synonym sheets_failure = "nat option \<times> string"

definition sheets_error :: "string \<Rightarrow> sheets_failure \<Rightarrow> error" where
  "sheets_error spreadsheetId f =
     (if fst f = Some 404
      then GoogleSheetsError (''Spreadsheet '' @ spreadsheetId @ '' not found or sheet ''
             @ [CHR 0x22] @ SHEET_NAME @ [CHR 0x22] @ '' does not exist'')
      else if fst f = Some 403
      then GoogleSheetsError (''Permission denied for spreadsheet '' @ spreadsheetId
             @ ''. Ensure service account has editor access'')
      else GoogleSheetsError (''Failed to update spreadsheet: '' @ snd f))"

text \<open>
  \<^verbatim>\<open>updateSpreadsheetInternal\<close> at attempt \<open>k\<close>: clear the range, then write the header
  and one row per tariff. \<open>clear_fails\<close> and \<open>update_fails\<close> say whether the two
  calls of this attempt fail. The written values are recorded by their number of
  data rows.
\<close>

definition updateSpreadsheetInternal ::
  "(string \<Rightarrow> nat \<Rightarrow> sheets_failure option) \<Rightarrow> (string \<Rightarrow> nat \<Rightarrow> sheets_failure option)
     \<Rightarrow> nat \<Rightarrow> string \<Rightarrow> 'a TariffExportRow_scheme list \<Rightarrow> event list \<times> (error + unit)" where
  "updateSpreadsheetInternal clear_fails update_fails k spreadsheetId tariffs =
     (case clear_fails spreadsheetId k of
        Some f \<Rightarrow> ([Call_SheetClear spreadsheetId], Inl (sheets_error spreadsheetId f))
      | None \<Rightarrow>
          (case update_fails spreadsheetId k of
             Some f \<Rightarrow> ([Call_SheetClear spreadsheetId, Call_SheetUpdate spreadsheetId (length tariffs)],
                        Inl (sheets_error spreadsheetId f))
           | None \<Rightarrow> ([Call_SheetClear spreadsheetId, Call_SheetUpdate spreadsheetId (length tariffs)],
                      Inr ())))"

function updateAttempts ::
  "(string \<Rightarrow> nat \<Rightarrow> sheets_failure option) \<Rightarrow> (string \<Rightarrow> nat \<Rightarrow> sheets_failure option)
     \<Rightarrow> nat \<Rightarrow> nat \<Rightarrow> string \<Rightarrow> 'a TariffExportRow_scheme list \<Rightarrow> nat \<Rightarrow> error option
     \<Rightarrow> event list \<times> (error + unit)" where
  "updateAttempts clear_fails update_fails maxRetries retryDelay spreadsheetId tariffs attempt lastError =
     (if attempt \<le> maxRetries then
        (case updateSpreadsheetInternal clear_fails update_fails attempt spreadsheetId tariffs of
           (ev0, Inr u) \<Rightarrow> (ev0, Inr ())
         | (ev0, Inl e) \<Rightarrow>
             (let ev = ev0 @ [Warn_AttemptFailed attempt maxRetries (error_message e)]
                     @ (if attempt < maxRetries then [Call_Sleep (retryDelay * attempt)] else []);
                  rest = updateAttempts clear_fails update_fails maxRetries retryDelay spreadsheetId
                           tariffs (Suc attempt) (Some e)
              in (ev @ fst rest, snd rest)))
      else
        (let errorMessage = ''Failed to update spreadsheet '' @ spreadsheetId @ '' after ''
                            @ string_of_nat maxRetries @ '' attempts: '' @ lastError_message lastError
         in ([Error_Logged errorMessage], Inl (GoogleSheetsError errorMessage))))"
  by pat_completeness auto
termination
  by (relation "measure (\<lambda>(cf, uf, maxRetries, retryDelay, i, t, attempt, lastError). Suc maxRetries - attempt)") auto

definition updateSpreadsheet ::
  "(string \<Rightarrow> nat \<Rightarrow> sheets_failure option) \<Rightarrow> (string \<Rightarrow> nat \<Rightarrow> sheets_failure option)
     \<Rightarrow> nat \<Rightarrow> nat \<Rightarrow> string \<Rightarrow> 'a TariffExportRow_scheme list \<Rightarrow> event list \<times> (error + unit)" where
  "updateSpreadsheet clear_fails update_fails maxRetries retryDelay spreadsheetId tariffs =
     (case validateSpreadsheetId spreadsheetId of
        Inl e \<Rightarrow> ([], Inl e)
      | Inr _ \<Rightarrow> updateAttempts clear_fails update_fails maxRetries retryDelay spreadsheetId tariffs 1 None)"

text \<open>
  \<^verbatim>\<open>getSpreadsheetIds\<close>: \<open>ids_query\<close> is what the select on the registry gives, the
  driver's message when it fails.
\<close>

definition getSpreadsheetIds :: "(string + string list) \<Rightarrow> event list \<times> (error + string list)" where
  "getSpreadsheetIds ids_query =
     (case ids_query of
        Inl m \<Rightarrow> ([Call_DbSelectIds], Inl (GoogleSheetsError (''Failed to fetch spreadsheet IDs: '' @ m)))
      | Inr ids \<Rightarrow> ([Call_DbSelectIds], Inr ids))"

text \<open>
  The \<^verbatim>\<open>forEach\<close> over the settled results: one log line per destination and the
  two counters.
\<close>

fun countResults :: "(string \<times> (error + unit)) list \<Rightarrow> nat \<Rightarrow> nat \<Rightarrow> event list \<times> nat \<times> nat" where
  "countResults [] successCount failureCount = ([], successCount, failureCount)"
| "countResults ((spreadsheetId, Inr u) # rs) successCount failureCount =
     (case countResults rs (Suc successCount) failureCount of
        (ev, s, f) \<Rightarrow> (Info_SheetUpdated spreadsheetId # ev, s, f))"
| "countResults ((spreadsheetId, Inl e) # rs) successCount failureCount =
     (case countResults rs successCount (Suc failureCount) of
        (ev, s, f) \<Rightarrow> (Error_SheetFailed spreadsheetId e # ev, s, f))"

text \<open>
  \<^verbatim>\<open>updateAllSpreadsheets\<close>. \<^verbatim>\<open>Promise.allSettled\<close> runs one
  \<^verbatim>\<open>updateSpreadsheet\<close> per registered id and waits for all of them; the events of
  the concurrent updates are listed destination by destination, which is one of
  their possible interleavings.
\<close>

definition updateAllSpreadsheets ::
  "(string + string list) \<Rightarrow> (string \<Rightarrow> nat \<Rightarrow> sheets_failure option)
     \<Rightarrow> (string \<Rightarrow> nat \<Rightarrow> sheets_failure option) \<Rightarrow> nat \<Rightarrow> nat
     \<Rightarrow> 'a TariffExportRow_scheme list \<Rightarrow> event list \<times> (error + unit)" where
  "updateAllSpreadsheets ids_query clear_fails update_fails maxRetries retryDelay tariffs =
     (case getSpreadsheetIds ids_query of
        (ev0, Inl e) \<Rightarrow> (ev0, Inl e)
      | (ev0, Inr spreadsheetIds) \<Rightarrow>
          if length spreadsheetIds = 0 then (ev0 @ [Warn_NoSpreadsheets], Inr ())
          else
            (let results = map (\<lambda>i. updateSpreadsheet clear_fails update_fails maxRetries retryDelay i tariffs)
                             spreadsheetIds
             in case countResults (zip spreadsheetIds (map snd results)) 0 0 of
                  (ev1, successCount, failureCount) \<Rightarrow>
                    (ev0 @ concat (map fst results) @ ev1
                       @ [Info_Summary successCount failureCount (length spreadsheetIds)],
                     if failureCount = length spreadsheetIds
                     then Inl (GoogleSheetsError ''All spreadsheet updates failed'')
                     else Inr ())))"

section \<open>Tariff store\<close>

text \<open>
  A row of the table \<^verbatim>\<open>box_tariffs\<close>: the columns of a \<open>BoxTariff\<close> and the two
  timestamps. The table is the list of its rows; the unique constraint on
  \<^verbatim>\<open>(date, warehouse_name)\<close> is the predicate \<open>unique_keys\<close>. The surrogate
  \<^verbatim>\<open>id\<close> column is not modelled.
\<close>

record StoredTariff = BoxTariff +
  created_at :: nat
  updated_at :: nat

definition same_key :: "'a BoxTariff_scheme \<Rightarrow> 'b BoxTariff_scheme \<Rightarrow> bool" where
  "same_key r t = (date r = date t \<and> warehouse_name r = warehouse_name t)"

definition row_key :: "'a BoxTariff_scheme \<Rightarrow> string \<times> string" where
  "row_key r = (date r, warehouse_name r)"

definition unique_keys :: "StoredTariff list \<Rightarrow> bool" where
  "unique_keys tbl = distinct (map row_key tbl)"

text \<open>
  One row of \<^verbatim>\<open>insert(chunk).onConflict(["date", "warehouse_name"]).merge({...})\<close>:
  without a row of the same key the row is inserted, \<^verbatim>\<open>created_at\<close> taking the
  database's default; with one, the columns listed in \<^verbatim>\<open>merge\<close> are overwritten
  with the incoming (\<^verbatim>\<open>EXCLUDED\<close>) values. \<open>now\<close> is the \<^verbatim>\<open>updated_at\<close> that
  \<^verbatim>\<open>upsertTariffs\<close> adds to every incoming row.
\<close>

fun insertOnConflictMerge :: "nat \<Rightarrow> nat \<Rightarrow> BoxTariff \<Rightarrow> StoredTariff list \<Rightarrow> StoredTariff list" where
  "insertOnConflictMerge db_now now t [] =
     [\<lparr> warehouse_name = warehouse_name t,
        geo_name = geo_name t,
        box_delivery_coef = box_delivery_coef t,
        box_delivery_base = box_delivery_base t,
        box_delivery_liter = box_delivery_liter t,
        box_storage_coef = box_storage_coef t,
        box_storage_base = box_storage_base t,
        box_storage_liter = box_storage_liter t,
        date = date t,
        box_delivery_marketplace_base = box_delivery_marketplace_base t,
        box_delivery_marketplace_liter = box_delivery_marketplace_liter t,
        box_delivery_marketplace_coef = box_delivery_marketplace_coef t,
        created_at = db_now,
        updated_at = now \<rparr>]"
| "insertOnConflictMerge db_now now t (r # rs) =
     (if same_key r t
      then r\<lparr> geo_name := geo_name t,
              box_delivery_base := box_delivery_base t,
              box_delivery_liter := box_delivery_liter t,
              box_delivery_coef := box_delivery_coef t,
              box_delivery_marketplace_base := box_delivery_marketplace_base t,
              box_delivery_marketplace_liter := box_delivery_marketplace_liter t,
              box_delivery_marketplace_coef := box_delivery_marketplace_coef t,
              box_storage_base := box_storage_base t,
              box_storage_liter := box_storage_liter t,
              box_storage_coef := box_storage_coef t,
              updated_at := now \<rparr> # rs
      else r # insertOnConflictMerge db_now now t rs)"

definition insertChunk :: "nat \<Rightarrow> nat \<Rightarrow> BoxTariff list \<Rightarrow> StoredTariff list \<Rightarrow> StoredTariff list" where
  "insertChunk db_now now chunk tbl = foldl (\<lambda>tb t. insertOnConflictMerge db_now now t tb) tbl chunk"

definition chunkSize :: nat where
  "chunkSize = 500"

text \<open>
  The chunk loop of \<^verbatim>\<open>upsertTariffs\<close>, from offset \<open>i\<close>, on the transaction's view
  \<open>trx\<close> of the table. \<open>chunk_fails i\<close> is the driver's message when the statement
  for the chunk at offset \<open>i\<close> fails, for whatever reason (a coefficient that the
  integer column cannot hold, an infinity for one, is such a reason).
\<close>

function upsertChunks ::
  "(nat \<Rightarrow> string option) \<Rightarrow> nat \<Rightarrow> nat \<Rightarrow> BoxTariff list \<Rightarrow> nat \<Rightarrow> StoredTariff list
     \<Rightarrow> event list \<times> (string + StoredTariff list)" where
  "upsertChunks chunk_fails db_now now tariffs i trx =
     (if i < length tariffs then
        (let chunk = take chunkSize (drop i tariffs) in
           case chunk_fails i of
             Some m \<Rightarrow> ([Call_DbInsertChunk i (length chunk)], Inl m)
           | None \<Rightarrow>
               (let rest = upsertChunks chunk_fails db_now now tariffs (i + chunkSize)
                             (insertChunk db_now now chunk trx)
                in (Call_DbInsertChunk i (length chunk) # fst rest, snd rest)))
      else ([], Inr trx))"
  by pat_completeness auto
termination
  by (relation "measure (\<lambda>(cf, db_now, now, tariffs, i, trx). length tariffs - i)")
     (auto simp: chunkSize_def)

text \<open>
  \<^verbatim>\<open>upsertTariffs\<close> on the committed table \<open>tbl\<close>; the result carries the committed
  table afterwards. Opening the transaction happens outside the \<^verbatim>\<open>try\<close>, so its
  failure propagates unwrapped. A failure of a chunk or of the commit is caught:
  the transaction is rolled back (the committed table stays what it was) and a
  \<open>DatabaseError\<close> is raised. The rollback itself is taken to succeed.
\<close>

definition upsertTariffs ::
  "string option \<Rightarrow> (nat \<Rightarrow> string option) \<Rightarrow> string option \<Rightarrow> nat \<Rightarrow> nat
     \<Rightarrow> BoxTariff list \<Rightarrow> StoredTariff list \<Rightarrow> event list \<times> (error + unit) \<times> StoredTariff list" where
  "upsertTariffs begin_fails chunk_fails commit_fails db_now now tariffs tbl =
     (if length tariffs = 0 then ([Warn_EmptyUpsert], Inr (), tbl)
      else case begin_fails of
        Some m \<Rightarrow> ([Call_DbBegin], Inl (RawError m), tbl)
      | None \<Rightarrow>
          (case upsertChunks chunk_fails db_now now tariffs 0 tbl of
             (ev, Inl m) \<Rightarrow>
               ([Call_DbBegin] @ ev @ [Call_DbRollback, Error_Logged (''Failed to upsert tariffs: '' @ m)],
                Inl (DatabaseError (''Failed to upsert tariffs: '' @ m)), tbl)
           | (ev, Inr trx) \<Rightarrow>
               (case commit_fails of
                  Some m \<Rightarrow>
                    ([Call_DbBegin] @ ev @ [Call_DbCommit, Call_DbRollback,
                        Error_Logged (''Failed to upsert tariffs: '' @ m)],
                     Inl (DatabaseError (''Failed to upsert tariffs: '' @ m)), tbl)
                | None \<Rightarrow> ([Call_DbBegin] @ ev @ [Call_DbCommit], Inr (), trx))))"

text \<open>
  The \<^verbatim>\<open>ORDER BY\<close> of \<^verbatim>\<open>getTariffsByDate\<close>:
  \<^verbatim>\<open>box_delivery_coef asc nulls last, warehouse_name asc\<close>, as a sort key compared
  lexicographically: first whether the coefficient is null, then the coefficient,
  then the name. Names are compared code unit by code unit (the database's
  collation is not modelled).
\<close>

definition order_key :: "'a TariffExportRow_scheme \<Rightarrow> (nat \<times> number) \<times> string" where
  "order_key r =
     ((case box_delivery_coef r of None \<Rightarrow> (1, Finite 0) | Some c \<Rightarrow> (0, c)), warehouse_name r)"

definition getTariffsByDate ::
  "string option \<Rightarrow> StoredTariff list \<Rightarrow> string \<Rightarrow> event list \<times> (error + TariffExportRow list)" where
  "getTariffsByDate select_fails tbl d =
     (case select_fails of
        Some m \<Rightarrow> ([Call_DbSelectTariffs d, Error_Logged (''Failed to fetch tariffs for date '' @ d @ '': '' @ m)],
                   Inl (DatabaseError (''Failed to fetch tariffs for date '' @ d @ '': '' @ m)))
      | None \<Rightarrow> ([Call_DbSelectTariffs d],
                 Inr (sort_key order_key (map TariffExportRow.truncate (filter (\<lambda>r. date r = d) tbl)))))"

section \<open>Metrics recorder\<close>

record SyncMetrics =
  startTime :: int
  endTime :: "int option"
  duration :: "int option"
  fetchedCount :: nat
  savedCount :: nat
  exportedCount :: nat
  success :: bool
  error :: "string option"

text \<open>
  \<^verbatim>\<open>startSync\<close> returns the very object it has pushed on the history, and the
  orchestrator and \<^verbatim>\<open>completeSync\<close> write to that object afterwards. So the
  collector is a store of objects (\<open>objects\<close>, addressed by position) and the
  array \<^verbatim>\<open>metrics\<close> is a list of addresses. An object evicted from the array stays
  in the store, as it stays reachable from the caller's reference.
\<close>

record MetricsCollector =
  objects :: "SyncMetrics list"
  metrics :: "nat list"

definition maxHistory :: nat where
  "maxHistory = 100"

definition newCollector :: MetricsCollector where
  "newCollector = \<lparr> objects = [], metrics = [] \<rparr>"

definition startSync :: "int \<Rightarrow> MetricsCollector \<Rightarrow> nat \<times> MetricsCollector" where
  "startSync now c =
     (let metric = \<lparr> startTime = now, endTime = None, duration = None, fetchedCount = 0,
                      savedCount = 0, exportedCount = 0, success = False, error = None \<rparr>;
          ref = length (objects c);
          pushed = metrics c @ [ref]
      in (ref, \<lparr> objects = objects c @ [metric],
                 metrics = (if length pushed > maxHistory then tl pushed else pushed) \<rparr>))"

text \<open>A write through a reference; a reference outside the store writes nothing.\<close>

definition modify :: "nat \<Rightarrow> (SyncMetrics \<Rightarrow> SyncMetrics) \<Rightarrow> MetricsCollector \<Rightarrow> MetricsCollector" where
  "modify ref f c = (if ref < length (objects c) then c\<lparr> objects := (objects c)[ref := f (objects c ! ref)] \<rparr> else c)"

definition completeSync :: "nat \<Rightarrow> int \<Rightarrow> bool \<Rightarrow> error option \<Rightarrow> MetricsCollector \<Rightarrow> MetricsCollector" where
  "completeSync ref now ok err c =
     modify ref (\<lambda>metric.
        let m1 = metric\<lparr> endTime := Some now \<rparr>;
            m2 = m1\<lparr> duration := Some (now - startTime m1) \<rparr>;
            m3 = m2\<lparr> success := ok \<rparr>
        in (case err of None \<Rightarrow> m3 | Some e \<Rightarrow> m3\<lparr> error := Some (error_message e) \<rparr>)) c"

text \<open>The objects of the history, oldest first.\<close>

definition history :: "MetricsCollector \<Rightarrow> SyncMetrics list" where
  "history c = map (\<lambda>ref. objects c ! ref) (metrics c)"

text \<open>\<^verbatim>\<open>this.metrics.slice(-count)\<close>, with \<open>n\<close> for \<^verbatim>\<open>count\<close>; \<^verbatim>\<open>slice(-0)\<close> is the whole array.\<close>

definition getRecentMetrics :: "nat \<Rightarrow> MetricsCollector \<Rightarrow> SyncMetrics list" where
  "getRecentMetrics n c =
     (if n = 0 then history c else drop (length (history c) - n) (history c))"

text \<open>The quotient is exact here; the rounding of a double is not modelled.\<close>

definition getSuccessRate :: "MetricsCollector \<Rightarrow> real" where
  "getSuccessRate c =
     (if length (history c) = 0 then 0
      else real (length (filter success (history c))) / real (length (history c)) * 100)"

definition getAverageDuration :: "MetricsCollector \<Rightarrow> real" where
  "getAverageDuration c =
     (let completed = filter (\<lambda>m. duration m \<noteq> None) (history c) in
        if length completed = 0 then 0
        else real_of_int (foldl (\<lambda>sum m. sum + (case duration m of None \<Rightarrow> 0 | Some d \<Rightarrow> d)) 0 completed)
             / real (length completed))"

definition wf_collector :: "MetricsCollector \<Rightarrow> bool" where
  "wf_collector c = (list_all (\<lambda>ref. ref < length (objects c)) (metrics c) \<and> length (metrics c) \<le> maxHistory)"

section \<open>Sync orchestrator\<close>

text \<open>
  Everything one run of \<^verbatim>\<open>syncTariffs\<close> gets from outside: the clock, the remote
  API, the database driver and the sheets API. The orchestrator uses the default
  service instances, hence the configured retry constants.
\<close>

record env =
  env_today :: string
  env_date_parses :: "string \<Rightarrow> bool"
  env_api :: "string \<Rightarrow> nat \<Rightarrow> http_outcome"
  env_begin_fails :: "string option"
  env_chunk_fails :: "nat \<Rightarrow> string option"
  env_commit_fails :: "string option"
  env_db_now :: nat
  env_upsert_now :: nat
  env_select_fails :: "string option"
  env_ids_query :: "string + string list"
  env_clear_fails :: "string \<Rightarrow> nat \<Rightarrow> sheets_failure option"
  env_update_fails :: "string \<Rightarrow> nat \<Rightarrow> sheets_failure option"
  env_start_time :: int
  env_end_time :: int

record world =
  table :: "StoredTariff list"
  collector :: MetricsCollector

text \<open>The \<^verbatim>\<open>catch\<close> block: the run is completed as failed and the error raised again.\<close>

definition failSync ::
  "env \<Rightarrow> nat \<Rightarrow> error \<Rightarrow> event list \<Rightarrow> StoredTariff list \<Rightarrow> MetricsCollector
     \<Rightarrow> event list \<times> (error + unit) \<times> world" where
  "failSync e ref err ev tbl c =
     (ev @ [Error_Logged (error_message err)], Inl err,
      \<lparr> table = tbl, collector = completeSync ref (env_end_time e) False (Some err) c \<rparr>)"

definition syncTariffs :: "env \<Rightarrow> world \<Rightarrow> event list \<times> (error + unit) \<times> world" where
  "syncTariffs e w =
     (case startSync (env_start_time e) (collector w) of (metric, c0) \<Rightarrow>
     (case fetchBoxTariffs (env_date_parses e) (env_api e) API_MAX_RETRIES API_RETRY_DELAY (env_today e) of
        (ev1, Inl err) \<Rightarrow> failSync e metric err ev1 (table w) c0
      | (ev1, Inr rawTariffs) \<Rightarrow>
          (let c1 = modify metric (\<lambda>m. m\<lparr> fetchedCount := length rawTariffs \<rparr>) c0 in
           if length rawTariffs = 0
           then (ev1 @ [Warn_NoTariffs], Inr (),
                 \<lparr> table = table w, collector = completeSync metric (env_end_time e) True None c1 \<rparr>)
           else
            (case transformToDbFormat rawTariffs (env_today e) of
               (ev2, Inl err) \<Rightarrow> failSync e metric err (ev1 @ ev2) (table w) c1
             | (ev2, Inr dbTariffs) \<Rightarrow>
                 (case upsertTariffs (env_begin_fails e) (env_chunk_fails e) (env_commit_fails e) (env_db_now e)
                         (env_upsert_now e) dbTariffs (table w) of
                    (ev3, Inl err, tbl) \<Rightarrow> failSync e metric err (ev1 @ ev2 @ ev3) tbl c1
                  | (ev3, Inr u, tbl) \<Rightarrow>
                      (let c2 = modify metric (\<lambda>m. m\<lparr> savedCount := length dbTariffs \<rparr>) c1 in
                      (case getTariffsByDate (env_select_fails e) tbl (env_today e) of
                         (ev4, Inl err) \<Rightarrow> failSync e metric err (ev1 @ ev2 @ ev3 @ ev4) tbl c2
                       | (ev4, Inr exportTariffs) \<Rightarrow>
                           if length exportTariffs = 0
                           then failSync e metric
                                  (AppError ''No tariffs found in database after insert - data consistency issue'' 500)
                                  (ev1 @ ev2 @ ev3 @ ev4) tbl c2
                           else
                             (case updateAllSpreadsheets (env_ids_query e) (env_clear_fails e) (env_update_fails e)
                                     SHEETS_MAX_RETRIES SHEETS_RETRY_DELAY exportTariffs of
                                (ev5, Inl err) \<Rightarrow>
                                  failSync e metric err (ev1 @ ev2 @ ev3 @ ev4 @ ev5) tbl c2
                              | (ev5, Inr u') \<Rightarrow>
                                  (let c3 = modify metric (\<lambda>m. m\<lparr> exportedCount := length exportTariffs \<rparr>) c2
                                   in (ev1 @ ev2 @ ev3 @ ev4 @ ev5, Inr (),
                                       \<lparr> table = tbl,
                                          collector = completeSync metric (env_end_time e) True None c3 \<rparr>))))))))))"

section \<open>Scheduler\<close>

text \<open>
  \<^verbatim>\<open>runSync\<close> is asynchronous: it sets the flag, calls \<^verbatim>\<open>syncTariffs\<close> and is
  suspended at the \<^verbatim>\<open>await\<close>; its \<^verbatim>\<open>catch\<close> and \<^verbatim>\<open>finally\<close> blocks run when the
  promise settles. Between the two halves any other callback may run. So the
  scheduler is a state with one transition per callback: a tick of a cron task, a
  call of \<^verbatim>\<open>runImmediateSync\<close>, the settling of a run in flight, and the calls of
  \<^verbatim>\<open>startHourlySync\<close> and \<^verbatim>\<open>stop\<close>. \<open>running\<close> counts the calls of
  \<^verbatim>\<open>syncTariffs\<close> that have not settled yet.
\<close>

datatype sched_trace =
    Flag_Set
  | Invoke_syncTariffs
  | Flag_Cleared
  | Log_Skipped
  | Log_Completed
  | Log_Failed error

record SchedulerService =
  tasks :: nat
  syncInProgress :: bool
  running :: nat
  strace :: "sched_trace list"

datatype sched_event =
    StartHourlySync
  | CronTick
  | RunImmediateSync
  | SyncSettles "error + unit"
  | Stop

definition newScheduler :: SchedulerService where
  "newScheduler = \<lparr> tasks = 0, syncInProgress = False, running = 0, strace = [] \<rparr>"

definition runSync_begin :: "SchedulerService \<Rightarrow> SchedulerService" where
  "runSync_begin s =
     s\<lparr> syncInProgress := True, running := Suc (running s),
        strace := strace s @ [Flag_Set, Invoke_syncTariffs] \<rparr>"

definition runSync_settle :: "error + unit \<Rightarrow> SchedulerService \<Rightarrow> SchedulerService" where
  "runSync_settle r s =
     (if running s = 0 then s
      else s\<lparr> syncInProgress := False, running := running s - 1,
              strace := strace s @ [case r of Inr u \<Rightarrow> Log_Completed | Inl err \<Rightarrow> Log_Failed err,
                                    Flag_Cleared] \<rparr>)"

definition cronCallback :: "SchedulerService \<Rightarrow> SchedulerService" where
  "cronCallback s =
     (if tasks s = 0 then s
      else if syncInProgress s then s\<lparr> strace := strace s @ [Log_Skipped] \<rparr>
      else runSync_begin s)"

definition runImmediateSync :: "SchedulerService \<Rightarrow> SchedulerService" where
  "runImmediateSync s = runSync_begin s"

fun sched_step :: "SchedulerService \<Rightarrow> sched_event \<Rightarrow> SchedulerService" where
  "sched_step s StartHourlySync = s\<lparr> tasks := Suc (tasks s) \<rparr>"
| "sched_step s CronTick = cronCallback s"
| "sched_step s RunImmediateSync = runImmediateSync s"
| "sched_step s (SyncSettles r) = runSync_settle r s"
| "sched_step s Stop = s\<lparr> tasks := 0 \<rparr>"

definition sched_run :: "SchedulerService \<Rightarrow> sched_event list \<Rightarrow> SchedulerService" where
  "sched_run s evs = foldl sched_step s evs"

section \<open>Observations on event lists and example inputs\<close>

fun sleeps :: "event list \<Rightarrow> nat list" where
  "sleeps [] = []"
| "sleeps (Call_Sleep ms # es) = ms # sleeps es"
| "sleeps (e # es) = sleeps es"

fun api_calls :: "event list \<Rightarrow> nat" where
  "api_calls [] = 0"
| "api_calls (Call_ApiFetch d # es) = Suc (api_calls es)"
| "api_calls (e # es) = api_calls es"

fun sheet_clears :: "event list \<Rightarrow> nat" where
  "sheet_clears [] = 0"
| "sheet_clears (Call_SheetClear d # es) = Suc (sheet_clears es)"
| "sheet_clears (e # es) = sheet_clears es"

definition api_down :: "string \<Rightarrow> nat \<Rightarrow> http_outcome" where
  "api_down d k = Http_Status (500 + k) ''boom'' ''Internal Server Error''"

definition sheet_denied :: "string \<Rightarrow> nat \<Rightarrow> sheets_failure option" where
  "sheet_denied i k = Some (Some 403, ''forbidden'')"

text \<open>
  An entry passes \<^verbatim>\<open>validateAndTrim\<close> on both name fields when its warehouse name
  is not blank and its region name is either empty (then stored as null) or not
  blank.
\<close>

definition entry_ok :: "WBWarehouseTariff \<Rightarrow> bool" where
  "entry_ok t = (trim (warehouseName t) \<noteq> [] \<and> (geoName t = [] \<or> trim (geoName t) \<noteq> []))"

definition raw_A :: WBWarehouseTariff where
  "raw_A = \<lparr> warehouseName = ''A'', geoName = [], boxDeliveryBase = ''-'', boxDeliveryLiter = [],
     boxDeliveryCoefExpr = ''-'', boxDeliveryMarketplaceBase = ''-'', boxDeliveryMarketplaceLiter = [],
     boxDeliveryMarketplaceCoefExpr = [], boxStorageBase = ''0,14'', boxStorageLiter = ''-'',
     boxStorageCoefExpr = ''abc'' \<rparr>"

definition raw_B :: WBWarehouseTariff where
  "raw_B = \<lparr> warehouseName = '' B '', geoName = ''Region'', boxDeliveryBase = ''48'', boxDeliveryLiter = ''11,2'',
     boxDeliveryCoefExpr = ''3'', boxDeliveryMarketplaceBase = ''40'', boxDeliveryMarketplaceLiter = ''11'',
     boxDeliveryMarketplaceCoefExpr = ''125'', boxStorageBase = ''0,14'', boxStorageLiter = ''0,07'',
     boxStorageCoefExpr = ''115'' \<rparr>"

definition raw_long :: WBWarehouseTariff where
  "raw_long = raw_B\<lparr> warehouseName := replicate 256 (CHR ''x'') \<rparr>"

definition raw_blank :: WBWarehouseTariff where
  "raw_blank = raw_B\<lparr> warehouseName := ''   '' \<rparr>"

text \<open>
  The object that \<^verbatim>\<open>startSync\<close> creates, and the part of the old history that
  survives the eviction of \<^verbatim>\<open>startSync\<close>.
\<close>

definition fresh_metric :: "int \<Rightarrow> SyncMetrics" where
  "fresh_metric now = \<lparr> startTime = now, endTime = None, duration = None, fetchedCount = 0,
                        savedCount = 0, exportedCount = 0, success = False, error = None \<rparr>"

definition kept_history :: "MetricsCollector \<Rightarrow> SyncMetrics list" where
  "kept_history c = (if length (history c) = maxHistory then tl (history c) else history c)"

definition one_success :: MetricsCollector where
  "one_success = completeSync 0 5 True None (snd (startSync 0 newCollector))"

text \<open>The settled result of the publish to one destination.\<close>

definition publish_result ::
  "(string \<Rightarrow> nat \<Rightarrow> sheets_failure option) \<Rightarrow> (string \<Rightarrow> nat \<Rightarrow> sheets_failure option)
     \<Rightarrow> nat \<Rightarrow> nat \<Rightarrow> 'a TariffExportRow_scheme list \<Rightarrow> string \<Rightarrow> error + unit" where
  "publish_result cf uf n dl rows i = snd (updateSpreadsheet cf uf n dl i rows)"

definition sheet_B_denied :: "string \<Rightarrow> nat \<Rightarrow> sheets_failure option" where
  "sheet_B_denied i k = (if i = ''sheet-B-0123456789abcdef'' then Some (Some 403, ''forbidden'') else None)"

definition sheet_fine :: "string \<Rightarrow> nat \<Rightarrow> sheets_failure option" where
  "sheet_fine i k = None"

definition three_sheets :: "string list" where
  "three_sheets = [''sheet-A-0123456789abcdef'', ''sheet-B-0123456789abcdef'', ''sheet-C-0123456789abcdef'']"

fun db_begins :: "event list \<Rightarrow> nat" where
  "db_begins [] = 0"
| "db_begins (Call_DbBegin # es) = Suc (db_begins es)"
| "db_begins (e # es) = db_begins es"

text \<open>
  The order that the export is to have, said on the rows themselves: smaller
  coefficients first, rows without a coefficient last, and the name ascending
  among rows with the same coefficient or with none.
\<close>

definition export_order :: "'a TariffExportRow_scheme \<Rightarrow> 'b TariffExportRow_scheme \<Rightarrow> bool" where
  "export_order r s =
     (case (box_delivery_coef r, box_delivery_coef s) of
        (Some a, Some b) \<Rightarrow> a < b \<or> (a = b \<and> warehouse_name r \<le> warehouse_name s)
      | (Some a, None) \<Rightarrow> True
      | (None, Some b) \<Rightarrow> False
      | (None, None) \<Rightarrow> warehouse_name r \<le> warehouse_name s)"

definition box_A :: BoxTariff where
  "box_A = \<lparr> warehouse_name = ''A'', geo_name = Some ''Region'', box_delivery_coef = None,
     box_delivery_base = None, box_delivery_liter = None, box_storage_coef = Some (Finite 115),
     box_storage_base = Some ''0,14'', box_storage_liter = Some ''0,07'', date = ''2025-01-20'',
     box_delivery_marketplace_base = None, box_delivery_marketplace_liter = None,
     box_delivery_marketplace_coef = None \<rparr>"

definition box_A' :: BoxTariff where
  "box_A' = box_A\<lparr> geo_name := None, box_storage_coef := None, box_delivery_coef := Some (Finite 7) \<rparr>"

definition stored :: "string \<Rightarrow> string \<Rightarrow> int option \<Rightarrow> StoredTariff" where
  "stored d name coef = \<lparr> warehouse_name = name, geo_name = None,
     box_delivery_coef = map_option Finite coef,
     box_delivery_base = Some ''48'', box_delivery_liter = Some ''11,2'', box_storage_coef = None,
     box_storage_base = None, box_storage_liter = None, date = d,
     box_delivery_marketplace_base = None, box_delivery_marketplace_liter = None,
     box_delivery_marketplace_coef = None, created_at = 1, updated_at = 1 \<rparr>"

definition exported :: "string \<Rightarrow> int option \<Rightarrow> TariffExportRow" where
  "exported name coef = \<lparr> warehouse_name = name, geo_name = None,
     box_delivery_coef = map_option Finite coef,
     box_delivery_base = Some ''48'', box_delivery_liter = Some ''11,2'', box_storage_coef = None,
     box_storage_base = None, box_storage_liter = None \<rparr>"

definition always_fails :: "nat \<Rightarrow> string option" where
  "always_fails i = Some ''deadlock detected''"

definition never_fails :: "nat \<Rightarrow> string option" where
  "never_fails i = None"

text \<open>The events that are calls to the database or to the sheets.\<close>

fun store_or_export_call :: "event \<Rightarrow> bool" where
  "store_or_export_call Call_DbBegin = True"
| "store_or_export_call (Call_DbInsertChunk i n) = True"
| "store_or_export_call Call_DbCommit = True"
| "store_or_export_call Call_DbRollback = True"
| "store_or_export_call (Call_DbSelectTariffs d) = True"
| "store_or_export_call Call_DbSelectIds = True"
| "store_or_export_call (Call_SheetClear i) = True"
| "store_or_export_call (Call_SheetUpdate i n) = True"
| "store_or_export_call e = False"

definition empty_day :: env where
  "empty_day = \<lparr> env_today = ''2025-01-20'',
       env_date_parses = (\<lambda>d. True),
       env_api = (\<lambda>d k. if k = 1 then Http_Throw ''socket hang up'' else Http_Ok (Some [])),
       env_begin_fails = None,
       env_chunk_fails = never_fails,
       env_commit_fails = None,
       env_db_now = 100,
       env_upsert_now = 100,
       env_select_fails = None,
       env_ids_query = Inr three_sheets,
       env_clear_fails = sheet_fine,
       env_update_fails = sheet_fine,
       env_start_time = 100,
       env_end_time = 1350 \<rparr>"

definition world0 :: world where
  "world0 = \<lparr> table = [stored ''2025-01-19'' ''B'' (Some 3)], collector = one_success \<rparr>"

text \<open>
  A string read as an integer, said on the string itself: white space, an optional
  sign, a non-empty run of decimal digits, and a rest that does not go on with a
  digit. \<open>signed\<close> is the integer of a sign and a magnitude.
\<close>

definition integer_prefix :: "string \<Rightarrow> string \<Rightarrow> string \<Rightarrow> string \<Rightarrow> string \<Rightarrow> bool" where
  "integer_prefix v ws sg ds rest =
     (v = ws @ sg @ ds @ rest \<and> list_all is_space ws \<and> (sg = [] \<or> sg = ''+'' \<or> sg = ''-'')
      \<and> ds \<noteq> [] \<and> list_all is_digit ds \<and> (rest = [] \<or> \<not> is_digit (hd rest)))"

definition signed :: "string \<Rightarrow> nat \<Rightarrow> int" where
  "signed sg m = (if sg = ''-'' then - int m else int m)"

section \<open>Properties\<close>

declare fetchAttempts.simps [simp del] updateAttempts.simps [simp del]
  string_of_nat.simps [simp del] upsertChunks.simps [simp del] bit_length.simps [simp del]

subsection \<open>Retry loops\<close>

lemma sleeps_append: "sleeps (xs @ ys) = sleeps xs @ sleeps ys"
  by (induction xs rule: sleeps.induct) auto

lemma api_calls_append: "api_calls (xs @ ys) = api_calls xs + api_calls ys"
  by (induction xs rule: api_calls.induct) auto

lemma sheet_clears_append: "sheet_clears (xs @ ys) = sheet_clears xs + sheet_clears ys"
  by (induction xs rule: sheet_clears.induct) auto

lemma fetchAttempts_over:
  "n < a \<Longrightarrow> fetchAttempts api n dl d a le =
     ([Error_Logged (''Failed to fetch tariffs after '' @ string_of_nat n @ '' attempts: '' @ lastError_message le)],
      Inl (WBApiError (''Failed to fetch tariffs after '' @ string_of_nat n @ '' attempts: '' @ lastError_message le) 503))"
  by (subst fetchAttempts.simps) (simp add: Let_def)

lemma fetchAttempts_ok:
  "a \<le> n \<Longrightarrow> fetchWithTimeout (api d a) = Inr l \<Longrightarrow>
   fetchAttempts api n dl d a le = ([Call_ApiFetch d], Inr l)"
  by (subst fetchAttempts.simps) simp

lemma fetchAttempts_retry:
  "a \<le> n \<Longrightarrow> fetchWithTimeout (api d a) = Inl e \<Longrightarrow>
   fetchAttempts api n dl d a le =
     ([Call_ApiFetch d, Warn_AttemptFailed a n (error_message e)]
        @ (if a < n then [Call_Sleep (dl * a)] else [])
        @ fst (fetchAttempts api n dl d (Suc a) (Some e)),
      snd (fetchAttempts api n dl d (Suc a) (Some e)))"
  by (subst fetchAttempts.simps) (simp add: Let_def)

lemma fetchAttempts_exhausted:
  assumes "\<forall>k. a \<le> k \<and> k \<le> n \<longrightarrow> fetchWithTimeout (api d k) = Inl (ef k)" and "a \<le> n"
  shows "snd (fetchAttempts api n dl d a le) =
           Inl (WBApiError (''Failed to fetch tariffs after '' @ string_of_nat n @ '' attempts: ''
                            @ error_message (ef n)) 503)
       \<and> sleeps (fst (fetchAttempts api n dl d a le)) = map (\<lambda>k. dl * k) [a..<n]
       \<and> api_calls (fst (fetchAttempts api n dl d a le)) = Suc n - a"
  using assms
proof (induction "n - a" arbitrary: a le)
  case 0
  then have an: "a = n" by simp
  have f: "fetchWithTimeout (api d n) = Inl (ef n)" using "0.prems" an by simp
  show ?case
    unfolding an by (simp add: fetchAttempts_retry [where api=api and d=d and a=n and e="ef n", OF order_refl f] fetchAttempts_over lastError_message_def)
next
  case (Suc m)
  then have lt: "a < n" and m: "m = n - Suc a" by simp_all
  have f: "fetchWithTimeout (api d a) = Inl (ef a)" using Suc.prems by simp
  have ih: "snd (fetchAttempts api n dl d (Suc a) (Some (ef a))) =
           Inl (WBApiError (''Failed to fetch tariffs after '' @ string_of_nat n @ '' attempts: ''
                            @ error_message (ef n)) 503)
       \<and> sleeps (fst (fetchAttempts api n dl d (Suc a) (Some (ef a)))) = map (\<lambda>k. dl * k) [Suc a..<n]
       \<and> api_calls (fst (fetchAttempts api n dl d (Suc a) (Some (ef a)))) = Suc n - Suc a"
    using Suc.hyps(1)[OF m, of "Some (ef a)"] Suc.prems lt by simp
  have up: "[a..<n] = a # [Suc a..<n]" using lt by (simp add: upt_conv_Cons)
  have le: "a \<le> n" using lt by simp
  show ?case
    using lt ih by (simp add: fetchAttempts_retry [where api=api and d=d and a=a and e="ef a", OF le f] sleeps_append api_calls_append up)
qed

lemma fetchAttempts_first_success:
  assumes "\<forall>k. a \<le> k \<and> k < j \<longrightarrow> fetchWithTimeout (api d k) = Inl (ef k)"
    and "fetchWithTimeout (api d j) = Inr l" and "a \<le> j" and "j \<le> n"
  shows "snd (fetchAttempts api n dl d a le) = Inr l
       \<and> sleeps (fst (fetchAttempts api n dl d a le)) = map (\<lambda>k. dl * k) [a..<j]
       \<and> api_calls (fst (fetchAttempts api n dl d a le)) = Suc j - a"
  using assms
proof (induction "j - a" arbitrary: a le)
  case 0
  then have aj: "a = j" by simp
  show ?case unfolding aj using "0.prems" by (simp add: fetchAttempts_ok)
next
  case (Suc m)
  then have lt: "a < j" and m: "m = j - Suc a" by simp_all
  have f: "fetchWithTimeout (api d a) = Inl (ef a)" using Suc.prems lt by simp
  have ih: "snd (fetchAttempts api n dl d (Suc a) (Some (ef a))) = Inr l
       \<and> sleeps (fst (fetchAttempts api n dl d (Suc a) (Some (ef a)))) = map (\<lambda>k. dl * k) [Suc a..<j]
       \<and> api_calls (fst (fetchAttempts api n dl d (Suc a) (Some (ef a)))) = Suc j - Suc a"
    using Suc.hyps(1)[OF m, of "Some (ef a)"] Suc.prems lt by simp
  have up: "[a..<j] = a # [Suc a..<j]" using lt by (simp add: upt_conv_Cons)
  have le: "a \<le> n" and ltn: "a < n" using lt Suc.prems by simp_all
  show ?case
    using lt ltn ih by (simp add: fetchAttempts_retry [where api=api and d=d and a=a and e="ef a", OF le f] sleeps_append api_calls_append up)
qed

lemma updateAttempts_over:
  "n < a \<Longrightarrow> updateAttempts cf uf n dl i rows a le =
     ([Error_Logged (''Failed to update spreadsheet '' @ i @ '' after '' @ string_of_nat n
                     @ '' attempts: '' @ lastError_message le)],
      Inl (GoogleSheetsError (''Failed to update spreadsheet '' @ i @ '' after '' @ string_of_nat n
                     @ '' attempts: '' @ lastError_message le)))"
  by (subst updateAttempts.simps) (simp add: Let_def)

lemma updateAttempts_ok:
  "a \<le> n \<Longrightarrow> snd (updateSpreadsheetInternal cf uf a i rows) = Inr u \<Longrightarrow>
   updateAttempts cf uf n dl i rows a le = (fst (updateSpreadsheetInternal cf uf a i rows), Inr ())"
  by (subst updateAttempts.simps, cases "updateSpreadsheetInternal cf uf a i rows") simp

lemma updateAttempts_retry:
  "a \<le> n \<Longrightarrow> snd (updateSpreadsheetInternal cf uf a i rows) = Inl e \<Longrightarrow>
   updateAttempts cf uf n dl i rows a le =
     (fst (updateSpreadsheetInternal cf uf a i rows) @ [Warn_AttemptFailed a n (error_message e)]
        @ (if a < n then [Call_Sleep (dl * a)] else [])
        @ fst (updateAttempts cf uf n dl i rows (Suc a) (Some e)),
      snd (updateAttempts cf uf n dl i rows (Suc a) (Some e)))"
  by (subst updateAttempts.simps, cases "updateSpreadsheetInternal cf uf a i rows") (simp add: Let_def)

lemma sleeps_internal: "sleeps (fst (updateSpreadsheetInternal cf uf a i rows)) = []"
  by (simp add: updateSpreadsheetInternal_def split: option.splits)

lemma clears_internal: "sheet_clears (fst (updateSpreadsheetInternal cf uf a i rows)) = 1"
  by (simp add: updateSpreadsheetInternal_def split: option.splits)

lemma updateAttempts_exhausted:
  assumes "\<forall>k. a \<le> k \<and> k \<le> n \<longrightarrow> snd (updateSpreadsheetInternal cf uf k i rows) = Inl (es k)" and "a \<le> n"
  shows "snd (updateAttempts cf uf n dl i rows a le) =
           Inl (GoogleSheetsError (''Failed to update spreadsheet '' @ i @ '' after '' @ string_of_nat n
                     @ '' attempts: '' @ error_message (es n)))
       \<and> sleeps (fst (updateAttempts cf uf n dl i rows a le)) = map (\<lambda>k. dl * k) [a..<n]
       \<and> sheet_clears (fst (updateAttempts cf uf n dl i rows a le)) = Suc n - a"
  using assms
proof (induction "n - a" arbitrary: a le)
  case 0
  then have an: "a = n" by simp
  have f: "snd (updateSpreadsheetInternal cf uf n i rows) = Inl (es n)" using "0.prems" an by simp
  show ?case
    unfolding an
    by (simp add: updateAttempts_retry [where cf=cf and uf=uf and a=n and e="es n", OF order_refl f] updateAttempts_over lastError_message_def
        sleeps_append sheet_clears_append sleeps_internal clears_internal)
next
  case (Suc m)
  then have lt: "a < n" and m: "m = n - Suc a" by simp_all
  have f: "snd (updateSpreadsheetInternal cf uf a i rows) = Inl (es a)" using Suc.prems by simp
  have ih: "snd (updateAttempts cf uf n dl i rows (Suc a) (Some (es a))) =
           Inl (GoogleSheetsError (''Failed to update spreadsheet '' @ i @ '' after '' @ string_of_nat n
                     @ '' attempts: '' @ error_message (es n)))
       \<and> sleeps (fst (updateAttempts cf uf n dl i rows (Suc a) (Some (es a)))) = map (\<lambda>k. dl * k) [Suc a..<n]
       \<and> sheet_clears (fst (updateAttempts cf uf n dl i rows (Suc a) (Some (es a)))) = Suc n - Suc a"
    using Suc.hyps(1)[OF m, of "Some (es a)"] Suc.prems lt by simp
  have up: "[a..<n] = a # [Suc a..<n]" using lt by (simp add: upt_conv_Cons)
  have le: "a \<le> n" using lt by simp
  show ?case
    using lt ih
    by (simp add: updateAttempts_retry [where cf=cf and uf=uf and a=a and e="es a", OF le f] sleeps_append sheet_clears_append up
        sleeps_internal clears_internal)
qed


text \<open>
  Claim C7. The fetch and the per-destination publish make the same configured
  number of attempts; between two attempts they wait the base delay times the
  number of the attempt that failed (no wait after the last one); when every
  attempt fails, the fetch raises a \<open>WBApiError\<close> with status 503 and the publish a
  \<open>GoogleSheetsError\<close>, whose messages carry the number of attempts, the message of
  the last underlying error and, for the publish, the destination id. The status
  of the fetch error is always 503; the status that the remote sent with the last
  response, when it sent one, is part of the wrapped message.
\<close>

theorem C7_retry_linear_backoff:
  assumes "1 \<le> n"
    and "validateDate date_parses d = Inr ()"
    and "\<forall>k. 1 \<le> k \<and> k \<le> n \<longrightarrow> fetchWithTimeout (api d k) = Inl (ef k)"
    and "validateSpreadsheetId i = Inr ()"
    and "\<forall>k. 1 \<le> k \<and> k \<le> n \<longrightarrow> snd (updateSpreadsheetInternal cf uf k i rows) = Inl (es k)"
  shows "snd (fetchBoxTariffs date_parses api n dl d) =
           Inl (WBApiError (''Failed to fetch tariffs after '' @ string_of_nat n @ '' attempts: ''
                            @ error_message (ef n)) 503)
       \<and> api_calls (fst (fetchBoxTariffs date_parses api n dl d)) = n
       \<and> sleeps (fst (fetchBoxTariffs date_parses api n dl d)) = map (\<lambda>k. dl * k) [1..<n]
       \<and> snd (updateSpreadsheet cf uf n dl' i rows) =
           Inl (GoogleSheetsError (''Failed to update spreadsheet '' @ i @ '' after '' @ string_of_nat n
                     @ '' attempts: '' @ error_message (es n)))
       \<and> sheet_clears (fst (updateSpreadsheet cf uf n dl' i rows)) = n
       \<and> sleeps (fst (updateSpreadsheet cf uf n dl' i rows)) = map (\<lambda>k. dl' * k) [1..<n]
       \<and> (\<forall>st body stext. api d n = Http_Status st body stext \<longrightarrow>
            error_message (ef n) = ''WB API Error: HTTP '' @ string_of_nat st @ '': ''
                                     @ (if body \<noteq> [] then body else stext))
       \<and> API_MAX_RETRIES = SHEETS_MAX_RETRIES"
proof -
  have a: "snd (fetchAttempts api n dl d 1 None) =
           Inl (WBApiError (''Failed to fetch tariffs after '' @ string_of_nat n @ '' attempts: ''
                            @ error_message (ef n)) 503)
       \<and> sleeps (fst (fetchAttempts api n dl d 1 None)) = map (\<lambda>k. dl * k) [1..<n]
       \<and> api_calls (fst (fetchAttempts api n dl d 1 None)) = Suc n - 1"
    using assms(1,3) by (intro fetchAttempts_exhausted) auto
  have b: "snd (updateAttempts cf uf n dl' i rows 1 None) =
           Inl (GoogleSheetsError (''Failed to update spreadsheet '' @ i @ '' after '' @ string_of_nat n
                     @ '' attempts: '' @ error_message (es n)))
       \<and> sleeps (fst (updateAttempts cf uf n dl' i rows 1 None)) = map (\<lambda>k. dl' * k) [1..<n]
       \<and> sheet_clears (fst (updateAttempts cf uf n dl' i rows 1 None)) = Suc n - 1"
    using assms(1,5) by (intro updateAttempts_exhausted) auto
  have c: "\<forall>st body stext. api d n = Http_Status st body stext \<longrightarrow>
            error_message (ef n) = ''WB API Error: HTTP '' @ string_of_nat st @ '': ''
                                     @ (if body \<noteq> [] then body else stext)"
  proof (intro allI impI)
    fix st body stext assume h: "api d n = Http_Status st body stext"
    have "fetchWithTimeout (api d n) = Inl (ef n)" using assms(1,3) by simp
    then have "ef n = WBApiError (''HTTP '' @ string_of_nat st @ '': '' @ (if body \<noteq> [] then body else stext)) st"
      unfolding h by simp
    then show "error_message (ef n) = ''WB API Error: HTTP '' @ string_of_nat st @ '': ''
                                     @ (if body \<noteq> [] then body else stext)"
      by simp
  qed
  show ?thesis
    using a b c assms(2,4)
    by (simp add: fetchBoxTariffs_def updateSpreadsheet_def API_MAX_RETRIES_def SHEETS_MAX_RETRIES_def)
qed

theorem C7_witness:
  "snd (fetchBoxTariffs (\<lambda>d. True) api_down API_MAX_RETRIES API_RETRY_DELAY ''2025-01-20'') =
     Inl (WBApiError ''Failed to fetch tariffs after 3 attempts: WB API Error: HTTP 503: boom'' 503)
   \<and> sleeps (fst (fetchBoxTariffs (\<lambda>d. True) api_down API_MAX_RETRIES API_RETRY_DELAY ''2025-01-20'')) = [1000, 2000]
   \<and> snd (updateSpreadsheet sheet_denied sheet_denied SHEETS_MAX_RETRIES SHEETS_RETRY_DELAY
            ''1aBcDeFgHiJkLmNoPqRsTuVwXyZ'' ([] :: TariffExportRow list)) =
     Inl (GoogleSheetsError (''Failed to update spreadsheet 1aBcDeFgHiJkLmNoPqRsTuVwXyZ after 3 attempts: ''
        @ ''Google Sheets Error: Permission denied for spreadsheet 1aBcDeFgHiJkLmNoPqRsTuVwXyZ. ''
        @ ''Ensure service account has editor access''))
   \<and> sleeps (fst (updateSpreadsheet sheet_denied sheet_denied SHEETS_MAX_RETRIES SHEETS_RETRY_DELAY
            ''1aBcDeFgHiJkLmNoPqRsTuVwXyZ'' ([] :: TariffExportRow list))) = [2000, 4000]"
proof -
  have n: "1 \<le> (3::nat)" by simp
  have v: "validateDate (\<lambda>d. True) ''2025-01-20'' = Inr ()"
    by (simp add: validateDate_def DATE_FORMAT_def is_digit_def)
  have f: "\<forall>k. 1 \<le> k \<and> k \<le> 3 \<longrightarrow> fetchWithTimeout (api_down ''2025-01-20'' k)
             = Inl (WBApiError (''HTTP '' @ string_of_nat (500 + k) @ '': boom'') (500 + k))"
    by (simp add: api_down_def)
  have i: "validateSpreadsheetId ''1aBcDeFgHiJkLmNoPqRsTuVwXyZ'' = Inr ()"
    by (simp add: validateSpreadsheetId_def trim_def is_space_def)
  have u: "\<forall>k. 1 \<le> k \<and> k \<le> 3 \<longrightarrow>
       snd (updateSpreadsheetInternal sheet_denied sheet_denied k ''1aBcDeFgHiJkLmNoPqRsTuVwXyZ''
              ([] :: TariffExportRow list))
       = Inl (sheets_error ''1aBcDeFgHiJkLmNoPqRsTuVwXyZ'' (Some 403, ''forbidden''))"
    by (simp add: updateSpreadsheetInternal_def sheet_denied_def)
  have s3: "string_of_nat 3 = ''3''" "string_of_nat 503 = ''503''" by code_simp+
  have up: "[Suc 0..<3] = [1, 2::nat]" by code_simp
  show ?thesis
    using C7_retry_linear_backoff [where n = 3 and date_parses = "\<lambda>d. True" and api = api_down
        and d = "''2025-01-20''"
        and ef = "\<lambda>k. WBApiError (''HTTP '' @ string_of_nat (500 + k) @ '': boom'') (500 + k)"
        and i = "''1aBcDeFgHiJkLmNoPqRsTuVwXyZ''" and cf = sheet_denied and uf = sheet_denied
        and rows = "[] :: TariffExportRow list"
        and es = "\<lambda>k. sheets_error ''1aBcDeFgHiJkLmNoPqRsTuVwXyZ'' (Some 403, ''forbidden'')"
        and dl = API_RETRY_DELAY and dl' = SHEETS_RETRY_DELAY, OF n v f i u]
    by (simp add: API_MAX_RETRIES_def SHEETS_MAX_RETRIES_def API_RETRY_DELAY_def SHEETS_RETRY_DELAY_def
        s3 up sheets_error_def)
qed

subsection \<open>Normalization\<close>

lemma dropWhile_all: "(\<forall>x\<in>set (dropWhile P v). P x) \<longleftrightarrow> dropWhile P v = []"
proof
  assume a: "\<forall>x\<in>set (dropWhile P v). P x"
  show "dropWhile P v = []"
  proof (rule ccontr)
    assume n: "dropWhile P v \<noteq> []"
    then have "hd (dropWhile P v) \<in> set (dropWhile P v)" by simp
    then show False using a hd_dropWhile [OF n] by blast
  qed
qed (auto dest: set_dropWhileD)

lemma trim_Nil_iff: "trim v = [] \<longleftrightarrow> list_all is_space v"
  by (simp add: trim_def dropWhile_all list_all_iff)

lemma trim_empty: "trim [] = []"
  by (simp add: trim_def)

lemma validateAndTrim_ok:
  "trim v \<noteq> [] \<Longrightarrow> validateAndTrim v f n =
     (if n < length (trim v) then [Warn_Truncating f n] else [], Inr (take n (trim v)))"
  by (auto simp: validateAndTrim_def Let_def trim_empty)

lemma validateAndTrim_blank:
  "trim v = [] \<Longrightarrow> \<exists>m. validateAndTrim v f n = ([], Inl (ValidationError m))"
  by (auto simp: validateAndTrim_def Let_def)

lemma transformEntry_ok:
  assumes "entry_ok t"
  shows "snd (transformEntry d k t) =
     Inr \<lparr> warehouse_name = take MAX_WAREHOUSE_NAME_LENGTH (trim (warehouseName t)),
           geo_name = (if geoName t = [] then None else Some (take MAX_GEO_NAME_LENGTH (trim (geoName t)))),
           box_delivery_coef = snd (parseCoefficient (boxDeliveryCoefExpr t)),
           box_delivery_base = parseValue (boxDeliveryBase t),
           box_delivery_liter = parseValue (boxDeliveryLiter t),
           box_storage_coef = snd (parseCoefficient (boxStorageCoefExpr t)),
           box_storage_base = parseValue (boxStorageBase t),
           box_storage_liter = parseValue (boxStorageLiter t),
           date = d,
           box_delivery_marketplace_base = parseValue (boxDeliveryMarketplaceBase t),
           box_delivery_marketplace_liter = parseValue (boxDeliveryMarketplaceLiter t),
           box_delivery_marketplace_coef = snd (parseCoefficient (boxDeliveryMarketplaceCoefExpr t)) \<rparr>"
  using assms
  by (auto simp: entry_ok_def transformEntry_def validateAndTrim_ok Let_def)

lemma transformEntry_warns:
  assumes "entry_ok t" and "MAX_WAREHOUSE_NAME_LENGTH < length (trim (warehouseName t))"
  shows "Warn_Truncating ''warehouseName'' MAX_WAREHOUSE_NAME_LENGTH \<in> set (fst (transformEntry d k t))"
  using assms
  by (auto simp: entry_ok_def transformEntry_def validateAndTrim_ok Let_def)

lemma transformEntry_bad:
  assumes "\<not> entry_ok t"
  shows "\<exists>m. snd (transformEntry d k t) = Inl (ValidationError m)"
proof (cases "trim (warehouseName t) = []")
  case True
  then show ?thesis
    using validateAndTrim_blank [OF True, of "''warehouseName''" MAX_WAREHOUSE_NAME_LENGTH]
    by (auto simp: transformEntry_def)
next
  case False
  then have g: "geoName t \<noteq> []" "trim (geoName t) = []" using assms by (auto simp: entry_ok_def)
  show ?thesis
    using validateAndTrim_blank [OF g(2), of "''geoName''" MAX_GEO_NAME_LENGTH] g(1) False
    by (auto simp: transformEntry_def validateAndTrim_ok)
qed

lemma transformFrom_ok:
  "list_all entry_ok ts \<Longrightarrow>
     \<exists>rs. snd (transformFrom d k ts) = Inr rs
        \<and> map warehouse_name rs = map (\<lambda>t. take MAX_WAREHOUSE_NAME_LENGTH (trim (warehouseName t))) ts"
proof (induction ts arbitrary: k)
  case Nil
  then show ?case by simp
next
  case (Cons t ts)
  then have t: "entry_ok t" and ts: "list_all entry_ok ts" by simp_all
  obtain rs where rs: "snd (transformFrom d (Suc k) ts) = Inr rs"
    "map warehouse_name rs = map (\<lambda>t. take MAX_WAREHOUSE_NAME_LENGTH (trim (warehouseName t))) ts"
    using Cons.IH [OF ts] by blast
  show ?case
    using transformEntry_ok [OF t, of d k] rs
    by (cases "transformEntry d k t"; cases "transformFrom d (Suc k) ts") auto
qed

lemma transformFrom_bad:
  "\<not> list_all entry_ok ts \<Longrightarrow> \<exists>m. snd (transformFrom d k ts) = Inl (ValidationError m)"
proof (induction ts arbitrary: k)
  case Nil
  then show ?case by simp
next
  case (Cons t ts)
  show ?case
  proof (cases "entry_ok t")
    case False
    then show ?thesis
      using transformEntry_bad [OF False, of d k]
      by (cases "transformEntry d k t") auto
  next
    case True
    then have "\<not> list_all entry_ok ts" using Cons.prems by simp
    then obtain m where "snd (transformFrom d (Suc k) ts) = Inl (ValidationError m)"
      using Cons.IH by blast
    then show ?thesis
      using transformEntry_ok [OF True, of d k]
      by (cases "transformEntry d k t"; cases "transformFrom d (Suc k) ts") auto
  qed
qed

lemma transformFrom_warns:
  "list_all entry_ok ts \<Longrightarrow> t \<in> set ts \<Longrightarrow> MAX_WAREHOUSE_NAME_LENGTH < length (trim (warehouseName t)) \<Longrightarrow>
   Warn_Truncating ''warehouseName'' MAX_WAREHOUSE_NAME_LENGTH \<in> set (fst (transformFrom d k ts))"
proof (induction ts arbitrary: k)
  case Nil
  then show ?case by simp
next
  case (Cons a ts)
  then have a: "entry_ok a" and ts: "list_all entry_ok ts" by simp_all
  obtain rs where rs: "snd (transformFrom d (Suc k) ts) = Inr rs"
    using transformFrom_ok [OF ts] by blast
  have ea: "\<exists>r. snd (transformEntry d k a) = Inr r" using transformEntry_ok [OF a] by simp
  show ?case
  proof (cases "t = a")
    case True
    then show ?thesis
      using transformEntry_warns [OF a, of d k] Cons.prems(3) rs ea
      by (cases "transformEntry d k a"; cases "transformFrom d (Suc k) ts") auto
  next
    case False
    then have "t \<in> set ts" using Cons.prems by simp
    then have "Warn_Truncating ''warehouseName'' MAX_WAREHOUSE_NAME_LENGTH \<in> set (fst (transformFrom d (Suc k) ts))"
      using Cons.IH [OF ts _ Cons.prems(3)] by blast
    then show ?thesis
      using rs ea
      by (cases "transformEntry d k a"; cases "transformFrom d (Suc k) ts") auto
  qed
qed


lemma parseValue_blank: "parseValue ''  '' = Some []" and parseValue_padded: "parseValue '' - '' = Some ''-''"
  by (simp_all add: parseValue_def trim_def is_space_def)

lemma number_order_simps [simp]:
  "Finite i \<le> Finite j \<longleftrightarrow> i \<le> j" "Finite i < Finite j \<longleftrightarrow> i < j"
  "NegInfinity < Finite i" "Finite i < PosInfinity" "NegInfinity < PosInfinity"
  "\<not> Finite i \<le> NegInfinity" "\<not> PosInfinity \<le> Finite i" "\<not> PosInfinity \<le> NegInfinity"
  by (simp_all add: less_eq_number_def less_number_def)

lemma number_order_ends [simp]: "NegInfinity \<le> x" "x \<le> PosInfinity"
  by (cases x; simp add: less_eq_number_def)+

lemma bit_length_less: "n < 2 ^ bit_length n"
proof (induction n rule: bit_length.induct)
  case (1 n)
  show ?case
  proof (cases "n = 0")
    case True
    then show ?thesis by (simp add: bit_length.simps [of 0])
  next
    case False
    have "n div 2 < 2 ^ bit_length (n div 2)" using "1.IH" [OF False] .
    then have "n < 2 * 2 ^ bit_length (n div 2)" by linarith
    then show ?thesis using False by (simp add: bit_length.simps [of n])
  qed
qed

lemma bit_length_ge: "0 < n \<Longrightarrow> 2 ^ (bit_length n - 1) \<le> n"
proof (induction n rule: bit_length.induct)
  case (1 n)
  then have n: "n \<noteq> 0" by simp
  have b: "bit_length n = Suc (bit_length (n div 2))" using n by (simp add: bit_length.simps [of n])
  show ?case
  proof (cases "n div 2 = 0")
    case True
    then show ?thesis using n by (simp add: b bit_length.simps [of 0])
  next
    case False
    then have "2 ^ (bit_length (n div 2) - 1) \<le> n div 2" using "1.IH" [OF n] by simp
    moreover have "0 < bit_length (n div 2)" using False by (simp add: bit_length.simps [of "n div 2"])
    ultimately have "2 ^ bit_length (n div 2) \<le> 2 * (n div 2)"
      by (cases "bit_length (n div 2)") simp_all
    then show ?thesis by (simp add: b)
  qed
qed

lemma to_double_exact: "n < 2 ^ 53 \<Longrightarrow> to_double n = Some n"
  by (simp add: to_double_def)

lemma to_double_overflow:
  assumes "2 ^ 1024 \<le> n"
  shows "to_double n = None"
proof -
  let ?e = "bit_length n"
  let ?s = "?e - 53"
  have pos: "0 < n" using assms by (metis less_le_trans zero_less_numeral zero_less_power)
  have "(2::nat) ^ 1024 < 2 ^ ?e" using assms bit_length_less [of n] by (rule le_less_trans)
  then have e: "1024 < ?e" by (rule power_less_imp_less_exp [rotated]) simp
  have big: "\<not> n < 2 ^ 53"
  proof -
    have "(2::nat) ^ 53 \<le> 2 ^ 1024" by (rule power_increasing) simp_all
    then have "2 ^ 53 \<le> n" using assms by (rule le_trans)
    then show ?thesis by (simp only: not_less)
  qed
  have lo: "2 ^ (?e - 1) \<le> n" using bit_length_ge [OF pos] .
  have ex: "?e - 1 = 52 + ?s" using e by linarith
  have split: "(2::nat) ^ (?e - 1) = 2 ^ 52 * 2 ^ ?s"
    unfolding ex by (rule power_add)
  have q: "2 ^ 52 \<le> n div 2 ^ ?s"
  proof -
    have "2 ^ 52 * 2 ^ ?s \<le> n" using lo split by simp
    then show ?thesis by (simp add: less_eq_div_iff_mult_less_eq)
  qed
  have "(2::nat) ^ 1024 \<le> 2 ^ (?e - 1)" using e by (intro power_increasing) simp_all
  then have hi: "2 ^ 1024 \<le> 2 ^ 52 * (2::nat) ^ ?s" using split by simp
  have m: "2 ^ 1024 \<le> k * 2 ^ ?s" if "n div 2 ^ ?s \<le> k" for k
  proof -
    have "2 ^ 52 * (2::nat) ^ ?s \<le> k * 2 ^ ?s" using q that by (intro mult_le_mono1) linarith
    then show ?thesis using hi by linarith
  qed
  show ?thesis
    using big m [of "n div 2 ^ ?s"] m [of "n div 2 ^ ?s + 1"]
    by (simp add: to_double_def Let_def del: power_numeral)
qed

lemma bit_length_eq:
  assumes "2 ^ k \<le> n" and "n < 2 ^ Suc k"
  shows "bit_length n = Suc k"
proof -
  have pos: "0 < n" using assms(1) by (metis less_le_trans zero_less_numeral zero_less_power)
  have "(2::nat) ^ k < 2 ^ bit_length n" using assms(1) bit_length_less [of n] by (rule le_less_trans)
  then have lo: "k < bit_length n" by (rule power_less_imp_less_exp [rotated]) simp
  have "(2::nat) ^ (bit_length n - 1) < 2 ^ Suc k" using bit_length_ge [OF pos] assms(2) by (rule le_less_trans)
  then have "bit_length n - 1 < Suc k" by (rule power_less_imp_less_exp [rotated]) simp
  then show ?thesis using lo by linarith
qed

lemma to_double_tie_to_even: "to_double 9007199254740993 = Some 9007199254740992"
proof -
  have "bit_length 9007199254740993 = Suc 53" by (rule bit_length_eq) simp_all
  then show ?thesis by (simp add: to_double_def Let_def)
qed

lemma not_space_sign_digit:
  "sg = ''+'' \<or> sg = ''-'' \<Longrightarrow> \<not> is_space (hd sg)" "is_digit c \<Longrightarrow> \<not> is_space c"
  "is_digit c \<Longrightarrow> c \<noteq> CHR ''-'' \<and> c \<noteq> CHR ''+''"
  by (auto simp: is_space_def is_digit_def Let_def)

lemma dropWhile_spaces:
  "list_all is_space ws \<Longrightarrow> s \<noteq> [] \<Longrightarrow> \<not> is_space (hd s) \<Longrightarrow> dropWhile is_space (ws @ s) = s"
  by (cases s) (simp_all add: dropWhile_append3 list_all_iff dropWhile_append)

lemma takeWhile_digits:
  "list_all is_digit ds \<Longrightarrow> rest = [] \<or> \<not> is_digit (hd rest) \<Longrightarrow> takeWhile is_digit (ds @ rest) = ds"
  by (cases rest) (auto simp: list_all_iff takeWhile_append)

lemma integer_prefix_reads:
  assumes "integer_prefix v ws sg ds rest"
  shows "leading_digits v = ds"
    and "(case dropWhile is_space v of [] \<Rightarrow> False | c # cs \<Rightarrow> c = CHR ''-'') = (sg = ''-'')"
    and "v \<noteq> []" and "v \<noteq> ''-''"
proof -
  have v: "v = ws @ sg @ ds @ rest" and ws: "list_all is_space ws"
    and sign: "sg = [] \<or> sg = ''+'' \<or> sg = ''-''" and ds: "ds \<noteq> []" "list_all is_digit ds"
    and rest: "rest = [] \<or> \<not> is_digit (hd rest)"
    using assms by (simp_all add: integer_prefix_def)
  obtain c cs where dc: "ds = c # cs" using ds(1) by (cases ds) auto
  have c: "is_digit c" using ds(2) dc by simp
  have tk: "takeWhile is_digit (ds @ rest) = ds" using ds(2) rest by (rule takeWhile_digits)
  have ne: "sg @ ds @ rest \<noteq> []" using ds(1) by simp
  have hd: "\<not> is_space (hd (sg @ ds @ rest))"
    using sign not_space_sign_digit(2) [OF c] dc by (auto simp: is_space_def)
  have dw: "dropWhile is_space v = sg @ ds @ rest"
    unfolding v using ws ne hd by (rule dropWhile_spaces)
  show "leading_digits v = ds"
    using sign tk not_space_sign_digit(3) [OF c] dc by (auto simp: leading_digits_def dw)
  show "(case dropWhile is_space v of [] \<Rightarrow> False | c # cs \<Rightarrow> c = CHR ''-'') = (sg = ''-'')"
    using sign not_space_sign_digit(3) [OF c] dc by (auto simp: dw)
  show "v \<noteq> []" using v ds(1) by simp
  show "v \<noteq> ''-''"
  proof
    assume "v = ''-''"
    then have "c \<in> set ''-''" using v dc by (metis in_set_conv_decomp append.assoc append_Cons)
    then show False using not_space_sign_digit(3) [OF c] by simp
  qed
qed

lemma leading_digits_prefix:
  assumes "leading_digits v \<noteq> []"
  shows "\<exists>ws sg rest. integer_prefix v ws sg (leading_digits v) rest"
proof -
  obtain c cs where dw: "dropWhile is_space v = c # cs"
    using assms by (cases "dropWhile is_space v") (simp_all add: leading_digits_def)
  let ?ws = "takeWhile is_space v"
  let ?sgn = "if c = CHR ''-'' \<or> c = CHR ''+'' then [c] else []"
  let ?s = "if c = CHR ''-'' \<or> c = CHR ''+'' then cs else c # cs"
  have ld: "leading_digits v = takeWhile is_digit ?s" by (simp add: leading_digits_def dw)
  have v: "v = ?ws @ ?sgn @ takeWhile is_digit ?s @ dropWhile is_digit ?s"
    using takeWhile_dropWhile_id [of is_space v] dw by auto
  have ws: "list_all is_space ?ws" by (auto simp: list_all_iff dest: set_takeWhileD)
  have dg: "list_all is_digit (takeWhile is_digit ?s)" by (auto simp: list_all_iff dest: set_takeWhileD)
  have rs: "dropWhile is_digit ?s = [] \<or> \<not> is_digit (hd (dropWhile is_digit ?s))"
    using hd_dropWhile [of is_digit ?s] by blast
  have "integer_prefix v ?ws ?sgn (leading_digits v) (dropWhile is_digit ?s)"
    unfolding integer_prefix_def ld using v ws dg rs assms ld by auto
  then show ?thesis by blast
qed

lemma parseCoefficient_prefix:
  assumes "integer_prefix v ws sg ds rest"
  shows "parseCoefficient v =
     ([], Some (case to_double (digits_value ds) of
                  None \<Rightarrow> (if sg = ''-'' then NegInfinity else PosInfinity)
                | Some m \<Rightarrow> Finite (signed sg m)))"
  using integer_prefix_reads [OF assms] assms
  by (auto simp: parseCoefficient_def parseInt_def Let_def signed_def integer_prefix_def
      split: option.splits)

text \<open>
  Claim C4 fails as stated in its last part: \<^verbatim>\<open>"12abc"\<close> is neither a sentinel nor a
  number, and \<^verbatim>\<open>parseInt\<close> reads its leading digits, so the coefficient is 12, not
  absent.
\<close>

theorem C4_counterexample:
  "''12abc'' \<noteq> ''-'' \<and> ''12abc'' \<noteq> [] \<and> \<not> list_all is_digit ''12abc''
   \<and> parseCoefficient ''12abc'' = ([], Some (Finite 12))"
  by (simp add: parseCoefficient_def parseInt_def leading_digits_def is_space_def is_digit_def
      digits_value_def digit_value_def to_double_def)

text \<open>
  Claim C4, amended. On every value field the empty string and the token
  \<^verbatim>\<open>"-"\<close> become absent (never zero, never an empty string), for the string
  fields and for the coefficients. A coefficient that is not a sentinel and has no
  decimal digit after its leading white space and optional sign becomes absent,
  with a warning. One that reads as white space, an optional sign and digits,
  followed by anything that is not a digit, becomes a number and no warning is
  logged: exactly the integer of the sign and the digits when the digits denote
  less than \<open>2^53\<close>; beyond that the double nearest to it, and an infinity of that
  sign from \<open>2^1024\<close> on. Every coefficient is of one of these kinds. Every value
  field of a produced record is the result of \<^verbatim>\<open>parseValue\<close> or
  \<^verbatim>\<open>parseCoefficient\<close>, and whether an entry fails depends on its two name fields
  only.
\<close>

theorem C4_sentinel_absent:
  "(v = [] \<or> v = ''-'' \<longrightarrow> parseValue v = None \<and> parseCoefficient v = ([], None))
   \<and> (v \<noteq> [] \<and> v \<noteq> ''-'' \<and> leading_digits v = [] \<longrightarrow>
        parseCoefficient v = ([Warn_InvalidCoefficient v], None))
   \<and> (leading_digits v \<noteq> [] \<longrightarrow> (\<exists>ws' sg' rest'. integer_prefix v ws' sg' (leading_digits v) rest'))
   \<and> (integer_prefix v ws sg ds rest \<longrightarrow>
        leading_digits v = ds
      \<and> parseCoefficient v =
          ([], Some (case to_double (digits_value ds) of
                       None \<Rightarrow> (if sg = ''-'' then NegInfinity else PosInfinity)
                     | Some m \<Rightarrow> Finite (signed sg m)))
      \<and> (digits_value ds < 2 ^ 53 \<longrightarrow>
            parseCoefficient v = ([], Some (Finite (signed sg (digits_value ds)))))
      \<and> (2 ^ 1024 \<le> digits_value ds \<longrightarrow>
            parseCoefficient v = ([], Some (if sg = ''-'' then NegInfinity else PosInfinity))))
   \<and> (snd (transformEntry d k t) = Inr r \<longrightarrow>
        box_delivery_base r = parseValue (boxDeliveryBase t)
      \<and> box_delivery_liter r = parseValue (boxDeliveryLiter t)
      \<and> box_delivery_coef r = snd (parseCoefficient (boxDeliveryCoefExpr t))
      \<and> box_delivery_marketplace_base r = parseValue (boxDeliveryMarketplaceBase t)
      \<and> box_delivery_marketplace_liter r = parseValue (boxDeliveryMarketplaceLiter t)
      \<and> box_delivery_marketplace_coef r = snd (parseCoefficient (boxDeliveryMarketplaceCoefExpr t))
      \<and> box_storage_base r = parseValue (boxStorageBase t)
      \<and> box_storage_liter r = parseValue (boxStorageLiter t)
      \<and> box_storage_coef r = snd (parseCoefficient (boxStorageCoefExpr t)))
   \<and> ((\<exists>e. snd (transformEntry d k t) = Inl e) \<longleftrightarrow> \<not> entry_ok t)"
proof -
  have a: "v = [] \<or> v = ''-'' \<longrightarrow> parseValue v = None \<and> parseCoefficient v = ([], None)"
    by (auto simp: parseValue_def parseCoefficient_def)
  have b: "v \<noteq> [] \<and> v \<noteq> ''-'' \<and> leading_digits v = [] \<longrightarrow>
        parseCoefficient v = ([Warn_InvalidCoefficient v], None)"
    by (simp add: parseCoefficient_def parseInt_def Let_def)
  have c: "leading_digits v \<noteq> [] \<longrightarrow> (\<exists>ws' sg' rest'. integer_prefix v ws' sg' (leading_digits v) rest')"
    using leading_digits_prefix [of v] by blast
  have g: "integer_prefix v ws sg ds rest \<longrightarrow>
        leading_digits v = ds
      \<and> parseCoefficient v =
          ([], Some (case to_double (digits_value ds) of
                       None \<Rightarrow> (if sg = ''-'' then NegInfinity else PosInfinity)
                     | Some m \<Rightarrow> Finite (signed sg m)))
      \<and> (digits_value ds < 2 ^ 53 \<longrightarrow>
            parseCoefficient v = ([], Some (Finite (signed sg (digits_value ds)))))
      \<and> (2 ^ 1024 \<le> digits_value ds \<longrightarrow>
            parseCoefficient v = ([], Some (if sg = ''-'' then NegInfinity else PosInfinity)))"
  proof
    assume p: "integer_prefix v ws sg ds rest"
    show "leading_digits v = ds
      \<and> parseCoefficient v =
          ([], Some (case to_double (digits_value ds) of
                       None \<Rightarrow> (if sg = ''-'' then NegInfinity else PosInfinity)
                     | Some m \<Rightarrow> Finite (signed sg m)))
      \<and> (digits_value ds < 2 ^ 53 \<longrightarrow>
            parseCoefficient v = ([], Some (Finite (signed sg (digits_value ds)))))
      \<and> (2 ^ 1024 \<le> digits_value ds \<longrightarrow>
            parseCoefficient v = ([], Some (if sg = ''-'' then NegInfinity else PosInfinity)))"
      using integer_prefix_reads(1) [OF p] parseCoefficient_prefix [OF p]
        to_double_exact [of "digits_value ds"] to_double_overflow [of "digits_value ds"]
      by (auto simp del: power_numeral)
  qed
  have e: "(\<exists>e. snd (transformEntry d k t) = Inl e) \<longleftrightarrow> \<not> entry_ok t"
    using transformEntry_ok [of t d k] transformEntry_bad [of t d k] by (cases "entry_ok t") auto
  have f: "snd (transformEntry d k t) = Inr r \<longrightarrow>
        box_delivery_base r = parseValue (boxDeliveryBase t)
      \<and> box_delivery_liter r = parseValue (boxDeliveryLiter t)
      \<and> box_delivery_coef r = snd (parseCoefficient (boxDeliveryCoefExpr t))
      \<and> box_delivery_marketplace_base r = parseValue (boxDeliveryMarketplaceBase t)
      \<and> box_delivery_marketplace_liter r = parseValue (boxDeliveryMarketplaceLiter t)
      \<and> box_delivery_marketplace_coef r = snd (parseCoefficient (boxDeliveryMarketplaceCoefExpr t))
      \<and> box_storage_base r = parseValue (boxStorageBase t)
      \<and> box_storage_liter r = parseValue (boxStorageLiter t)
      \<and> box_storage_coef r = snd (parseCoefficient (boxStorageCoefExpr t))"
  proof (cases "entry_ok t")
    case True
    show ?thesis using transformEntry_ok [OF True, of d k] by auto
  next
    case False
    then show ?thesis using transformEntry_bad [OF False, of d k] by auto
  qed
  show ?thesis using a b c g e f by blast
qed

lemma entry_ok_raw_A: "entry_ok raw_A"
  by (simp add: entry_ok_def raw_A_def trim_def is_space_def)

lemma digits_value_snoc: "digits_value (ds @ [c]) = 10 * digits_value ds + digit_value c"
  by (simp add: digits_value_def)

lemma digits_value_nines: "Suc (digits_value (replicate n (CHR ''9''))) = 10 ^ n"
proof (induction n)
  case 0
  then show ?case by (simp add: digits_value_def)
next
  case (Suc n)
  have r: "replicate (Suc n) (CHR ''9'') = replicate n (CHR ''9'') @ [CHR ''9'']"
    by (simp add: replicate_append_same)
  have "digits_value (replicate (Suc n) (CHR ''9'')) = 10 * digits_value (replicate n (CHR ''9'')) + 9"
    unfolding r digits_value_snoc by (simp add: digit_value_def)
  then show ?case using Suc by simp
qed

theorem C4_witness:
  "parseValue ''-'' = None \<and> parseCoefficient ''-'' = ([], None)
   \<and> parseValue [] = None \<and> parseCoefficient [] = ([], None)
   \<and> parseCoefficient ''abc'' = ([Warn_InvalidCoefficient ''abc''], None)
   \<and> parseCoefficient ''12abc'' = ([], Some (Finite 12))
   \<and> parseCoefficient '' -42'' = ([], Some (Finite (- 42)))
   \<and> parseCoefficient ''9007199254740993'' = ([], Some (Finite 9007199254740992))
   \<and> parseCoefficient (replicate 400 (CHR ''9'')) = ([], Some PosInfinity)
   \<and> (\<exists>ws sg rest. integer_prefix ''12abc'' ws sg ''12'' rest)
   \<and> (\<exists>r. snd (transformEntry ''2025-01-20'' 0 raw_A) = Inr r
          \<and> box_delivery_base r = None \<and> box_delivery_liter r = None \<and> box_delivery_coef r = None
          \<and> box_delivery_marketplace_coef r = None \<and> box_storage_coef r = None
          \<and> box_storage_base r = Some ''0,14'')
   \<and> \<not> (\<exists>e. snd (transformEntry ''2025-01-20'' 0 raw_A) = Inl e)"
proof -
  have l1: "leading_digits ''abc'' = []" "leading_digits ''12abc'' = ''12''"
    by (simp_all add: leading_digits_def is_space_def is_digit_def)
  have p1: "integer_prefix ''12abc'' [] [] ''12'' ''abc''"
    and p2: "integer_prefix '' -42'' '' '' ''-'' ''42'' []"
    and p3: "integer_prefix ''9007199254740993'' [] [] ''9007199254740993'' []"
    and p4: "integer_prefix (replicate 400 (CHR ''9'')) [] [] (replicate 400 (CHR ''9'')) []"
    by (simp_all add: integer_prefix_def is_space_def is_digit_def list_all_iff)
  have d: "digits_value ''12'' = 12" "digits_value ''42'' = 42"
      "digits_value ''9007199254740993'' = 9007199254740993"
    by (simp_all add: digits_value_def digit_value_def)
  have big: "(2::nat) ^ 1024 \<le> digits_value (replicate 400 (CHR ''9''))"
  proof -
    have "(2::nat) ^ 1024 < 10 ^ 400" by simp
    then show ?thesis using digits_value_nines [of 400] by linarith
  qed
  have c1: "parseCoefficient ''12abc'' = ([], Some (Finite 12))"
    using C4_sentinel_absent [of "''12abc''" "[]" "[]" "''12''" "''abc''" "[]" 0 raw_A box_A] p1 d
    by (simp add: signed_def to_double_exact)
  have c2: "parseCoefficient '' -42'' = ([], Some (Finite (- 42)))"
    using C4_sentinel_absent [of "'' -42''" "'' ''" "''-''" "''42''" "[]" "[]" 0 raw_A box_A] p2 d
    by (simp add: signed_def to_double_exact)
  have c3: "parseCoefficient ''9007199254740993'' = ([], Some (Finite 9007199254740992))"
    using C4_sentinel_absent [of "''9007199254740993''" "[]" "[]" "''9007199254740993''" "[]" "[]" 0
        raw_A box_A] p3
    by (simp add: d to_double_tie_to_even signed_def del: power_numeral)
  have c4: "parseCoefficient (replicate 400 (CHR ''9'')) = ([], Some PosInfinity)"
  proof -
    have "integer_prefix (replicate 400 (CHR ''9'')) [] [] (replicate 400 (CHR ''9'')) [] \<longrightarrow>
          (2 ^ 1024 \<le> digits_value (replicate 400 (CHR ''9'')) \<longrightarrow>
             parseCoefficient (replicate 400 (CHR ''9''))
               = ([], Some (if [] = ''-'' then NegInfinity else PosInfinity)))"
      using C4_sentinel_absent [of "replicate 400 (CHR ''9'')" "[]" "[]" "replicate 400 (CHR ''9'')" "[]"
          "[]" 0 raw_A box_A] by blast
    then show ?thesis using p4 big by (simp del: power_numeral)
  qed
  have c5: "\<exists>ws sg rest. integer_prefix ''12abc'' ws sg ''12'' rest"
    using C4_sentinel_absent [of "''12abc''" "[]" "[]" "[]" "[]" "[]" 0 raw_A box_A] l1 by simp
  obtain r where r: "snd (transformEntry ''2025-01-20'' 0 raw_A) = Inr r"
    using transformEntry_ok [OF entry_ok_raw_A] by blast
  have p: "parseValue (boxStorageBase raw_A) = Some ''0,14''"
    by (simp add: parseValue_def raw_A_def trim_def is_space_def)
  have q: "parseCoefficient (boxStorageCoefExpr raw_A) = ([Warn_InvalidCoefficient ''abc''], None)"
    using C4_sentinel_absent [of "''abc''" "[]" "[]" "[]" "[]" "[]" 0 raw_A box_A] l1
    by (simp add: raw_A_def)
  have rr: "box_delivery_base r = None \<and> box_delivery_liter r = None \<and> box_delivery_coef r = None
          \<and> box_delivery_marketplace_coef r = None \<and> box_storage_coef r = None
          \<and> box_storage_base r = Some ''0,14''"
    using C4_sentinel_absent [of "''-''" "[]" "[]" "[]" "[]" "''2025-01-20''" 0 raw_A r]
      C4_sentinel_absent [of "[]" "[]" "[]" "[]" "[]" "[]" 0 raw_A box_A] r p q
    by (simp add: raw_A_def)
  have ne: "\<not> (\<exists>e. snd (transformEntry ''2025-01-20'' 0 raw_A) = Inl e)"
    using C4_sentinel_absent [of "[]" "[]" "[]" "[]" "[]" "''2025-01-20''" 0 raw_A] entry_ok_raw_A
    by simp
  have s: "parseValue ''-'' = None \<and> parseCoefficient ''-'' = ([], None)
           \<and> parseValue [] = None \<and> parseCoefficient [] = ([], None)"
    using C4_sentinel_absent [of "''-''" "[]" "[]" "[]" "[]" "[]" 0 raw_A box_A]
      C4_sentinel_absent [of "[]" "[]" "[]" "[]" "[]" "[]" 0 raw_A box_A] by simp
  have n: "parseCoefficient ''abc'' = ([Warn_InvalidCoefficient ''abc''], None)"
    using C4_sentinel_absent [of "''abc''" "[]" "[]" "[]" "[]" "[]" 0 raw_A box_A] l1 by simp
  show ?thesis using s n c1 c2 c3 c4 c5 r rr ne by blast
qed

lemma trim_replicate: "\<not> is_space c \<Longrightarrow> trim (replicate n c) = replicate n c"
  by (simp add: trim_def)

text \<open>
  Claim C9 fails as stated in its last part: a warehouse name of white space only
  raises a validation error, and the error of one entry fails the whole batch.
\<close>

theorem C9_counterexample:
  "snd (transformToDbFormat [raw_B, raw_blank] ''2025-01-20'')
     = Inl (ValidationError ''warehouseName cannot be empty or whitespace only'')"
  by (simp add: transformToDbFormat_def transformEntry_def validateAndTrim_def raw_B_def raw_blank_def
      trim_def is_space_def MAX_WAREHOUSE_NAME_LENGTH_def MAX_GEO_NAME_LENGTH_def Let_def)

text \<open>
  Claim C9, amended. A warehouse name longer than the limit after trimming is cut
  to the limit, with a warning, and is no error. A batch in which every entry has
  a non-blank warehouse name and an empty or non-blank region name yields one
  record per entry, in order, each named by the trimmed name cut to the limit,
  and logs the warning when a name was cut. A batch with an entry whose warehouse
  name is blank, or whose region name is not empty but blank, fails as a whole
  with a validation error.
\<close>

theorem C9_long_name_truncated:
  "(MAX_WAREHOUSE_NAME_LENGTH < length (trim (warehouseName t)) \<longrightarrow>
      validateAndTrim (warehouseName t) ''warehouseName'' MAX_WAREHOUSE_NAME_LENGTH
        = ([Warn_Truncating ''warehouseName'' MAX_WAREHOUSE_NAME_LENGTH],
           Inr (take MAX_WAREHOUSE_NAME_LENGTH (trim (warehouseName t)))))
   \<and> (list_all entry_ok ts \<longrightarrow>
        (\<exists>rs. snd (transformToDbFormat ts d) = Inr rs
           \<and> map warehouse_name rs = map (\<lambda>t. take MAX_WAREHOUSE_NAME_LENGTH (trim (warehouseName t))) ts))
   \<and> (list_all entry_ok ts \<and> t \<in> set ts \<and> MAX_WAREHOUSE_NAME_LENGTH < length (trim (warehouseName t)) \<longrightarrow>
        Warn_Truncating ''warehouseName'' MAX_WAREHOUSE_NAME_LENGTH \<in> set (fst (transformToDbFormat ts d)))
   \<and> (\<not> list_all entry_ok ts \<longrightarrow> (\<exists>m. snd (transformToDbFormat ts d) = Inl (ValidationError m)))"
proof -
  have a: "MAX_WAREHOUSE_NAME_LENGTH < length (trim (warehouseName t)) \<longrightarrow>
      validateAndTrim (warehouseName t) ''warehouseName'' MAX_WAREHOUSE_NAME_LENGTH
        = ([Warn_Truncating ''warehouseName'' MAX_WAREHOUSE_NAME_LENGTH],
           Inr (take MAX_WAREHOUSE_NAME_LENGTH (trim (warehouseName t))))"
    by (cases "trim (warehouseName t) = []") (auto simp: validateAndTrim_ok)
  show ?thesis
    using a transformFrom_ok [of ts d 0] transformFrom_warns [of ts t d 0] transformFrom_bad [of ts d 0]
    unfolding transformToDbFormat_def by blast
qed

theorem C9_witness:
  "validateAndTrim (replicate 256 (CHR ''x'')) ''warehouseName'' MAX_WAREHOUSE_NAME_LENGTH
     = ([Warn_Truncating ''warehouseName'' MAX_WAREHOUSE_NAME_LENGTH], Inr (replicate 255 (CHR ''x'')))
   \<and> (\<exists>rs. snd (transformToDbFormat [raw_long, raw_B] ''2025-01-20'') = Inr rs
         \<and> map warehouse_name rs = [replicate 255 (CHR ''x''), ''B''])
   \<and> Warn_Truncating ''warehouseName'' MAX_WAREHOUSE_NAME_LENGTH
        \<in> set (fst (transformToDbFormat [raw_long, raw_B] ''2025-01-20''))
   \<and> (\<exists>m. snd (transformToDbFormat [raw_B, raw_blank] ''2025-01-20'') = Inl (ValidationError m))"
proof -
  have x: "\<not> is_space (CHR ''x'')" by (simp add: is_space_def)
  have n: "warehouseName raw_long = replicate 256 (CHR ''x'')" by (simp add: raw_long_def)
  have tl: "trim (warehouseName raw_long) = replicate 256 (CHR ''x'')"
    by (simp add: n trim_replicate [OF x])
  have tb: "trim (warehouseName raw_B) = ''B''" "trim (geoName raw_B) = ''Region''"
    by (simp_all add: raw_B_def trim_def is_space_def)
  have g: "geoName raw_long = ''Region''" by (simp add: raw_long_def raw_B_def)
  have okB: "entry_ok raw_B" by (simp add: entry_ok_def tb)
  have tr: "trim ''Region'' = ''Region''" by (simp add: trim_def is_space_def)
  have okL: "entry_ok raw_long" by (simp add: entry_ok_def tl g tr)
  have bad: "\<not> entry_ok raw_blank" by (simp add: entry_ok_def raw_blank_def trim_def is_space_def)
  have len: "MAX_WAREHOUSE_NAME_LENGTH < length (trim (warehouseName raw_long))"
    by (simp add: tl MAX_WAREHOUSE_NAME_LENGTH_def)
  have tk: "take MAX_WAREHOUSE_NAME_LENGTH (replicate 256 (CHR ''x'')) = replicate 255 (CHR ''x'')"
    by (simp add: MAX_WAREHOUSE_NAME_LENGTH_def)
  have tkB: "take MAX_WAREHOUSE_NAME_LENGTH ''B'' = ''B''" by (simp add: MAX_WAREHOUSE_NAME_LENGTH_def)
  show ?thesis
    using C9_long_name_truncated [of raw_long "[raw_long, raw_B]" "''2025-01-20''"]
      C9_long_name_truncated [of raw_long "[raw_B, raw_blank]" "''2025-01-20''"]
      okB okL bad len
    by (simp add: tl tb n trim_replicate [OF x] MAX_WAREHOUSE_NAME_LENGTH_def)
qed

subsection \<open>Metrics recorder\<close>

lemma startSync_ref: "fst (startSync now c) = length (objects c)"
  by (simp add: startSync_def Let_def)

lemma startSync_objects: "objects (snd (startSync now c)) = objects c @ [fresh_metric now]"
  by (simp add: startSync_def Let_def fresh_metric_def)

lemma startSync_metrics:
  "length (metrics c) \<le> maxHistory \<Longrightarrow>
   metrics (snd (startSync now c)) =
     (if length (metrics c) = maxHistory then tl (metrics c) else metrics c) @ [length (objects c)]"
  by (cases "metrics c") (auto simp: startSync_def Let_def maxHistory_def)

lemma map_old_objects:
  "list_all (\<lambda>r. r < length os) rs \<Longrightarrow> map (\<lambda>r. (os @ [m]) ! r) rs = map (\<lambda>r. os ! r) rs"
  by (induction rs) (auto simp: nth_append)

lemma list_all_tl: "list_all P xs \<Longrightarrow> list_all P (tl xs)"
  by (cases xs) auto

lemma history_startSync:
  assumes "wf_collector c"
  shows "history (snd (startSync now c)) = kept_history c @ [fresh_metric now]"
proof -
  have le: "length (metrics c) \<le> maxHistory" and all: "list_all (\<lambda>r. r < length (objects c)) (metrics c)"
    using assms by (simp_all add: wf_collector_def)
  have all': "list_all (\<lambda>r. r < length (objects c)) (tl (metrics c))"
    using all by (rule list_all_tl)
  show ?thesis
    using map_old_objects [OF all, of "fresh_metric now"] map_old_objects [OF all', of "fresh_metric now"]
    by (simp add: history_def startSync_metrics [OF le] startSync_objects kept_history_def map_tl)
qed

lemma wf_startSync:
  assumes "wf_collector c"
  shows "wf_collector (snd (startSync now c))"
proof -
  have le: "length (metrics c) \<le> maxHistory" and all: "list_all (\<lambda>r. r < length (objects c)) (metrics c)"
    using assms by (simp_all add: wf_collector_def)
  have w: "list_all (\<lambda>r. r < Suc (length (objects c))) (metrics c)"
    using all by (auto simp: list_all_iff)
  have w': "list_all (\<lambda>r. r < Suc (length (objects c))) (tl (metrics c))"
    using w by (rule list_all_tl)
  show ?thesis
    using le w w'
    by (auto simp: wf_collector_def startSync_metrics [OF le] startSync_objects maxHistory_def)
qed

lemma completeSync_metrics: "metrics (completeSync r t ok err c) = metrics c"
  by (simp add: completeSync_def modify_def)

lemma completeSync_length: "length (objects (completeSync r t ok err c)) = length (objects c)"
  by (simp add: completeSync_def modify_def)

lemma completeSync_other: "r \<noteq> ref \<Longrightarrow> objects (completeSync r t ok err c) ! ref = objects c ! ref"
  by (simp add: completeSync_def modify_def)

lemma wf_completeSync: "wf_collector c \<Longrightarrow> wf_collector (completeSync r t ok err c)"
  by (simp add: wf_collector_def completeSync_metrics completeSync_length)

lemma wf_newCollector: "wf_collector newCollector"
  by (simp add: wf_collector_def newCollector_def)

text \<open>
  Claim C10. Right after \<^verbatim>\<open>startSync\<close> the new run is the last entry of the
  history, with \<^verbatim>\<open>success = false\<close> and no end time; the oldest entry has been
  evicted at that moment if the history was full (100 entries). So
  \<^verbatim>\<open>getRecentMetrics\<close> ends with the incomplete entry and \<^verbatim>\<open>getSuccessRate\<close>
  counts it in the total and not among the successes. \<^verbatim>\<open>completeSync\<close> never
  changes which entries the history holds, and completing another run leaves the
  entry as it is.
\<close>

theorem C10_in_flight_run_in_history:
  assumes "wf_collector c" and "startSync now c = (ref, c')"
  shows "objects c' ! ref = fresh_metric now
       \<and> success (fresh_metric now) = False \<and> endTime (fresh_metric now) = None
       \<and> history c' = kept_history c @ [fresh_metric now]
       \<and> length (history c') \<le> maxHistory
       \<and> getRecentMetrics n c' \<noteq> [] \<and> last (getRecentMetrics n c') = fresh_metric now
       \<and> getSuccessRate c' = real (length (filter success (kept_history c))) / real (length (kept_history c) + 1) * 100
       \<and> metrics (completeSync r t ok err c') = metrics c'
       \<and> (r \<noteq> ref \<longrightarrow> objects (completeSync r t ok err c') ! ref = fresh_metric now)"
proof -
  have c': "c' = snd (startSync now c)" and ref: "ref = length (objects c)"
    using assms(2) startSync_ref [of now c] by auto
  have h: "history c' = kept_history c @ [fresh_metric now]"
    unfolding c' by (rule history_startSync [OF assms(1)])
  have o: "objects c' ! ref = fresh_metric now"
    by (simp add: c' ref startSync_objects)
  have wf: "wf_collector c'" unfolding c' by (rule wf_startSync [OF assms(1)])
  have len: "length (history c') \<le> maxHistory"
    using wf by (simp add: wf_collector_def history_def)
  have rec: "getRecentMetrics n c' \<noteq> [] \<and> last (getRecentMetrics n c') = fresh_metric now"
    by (auto simp: getRecentMetrics_def h)
  have rate: "getSuccessRate c' = real (length (filter success (kept_history c))) / real (length (kept_history c) + 1) * 100"
    by (simp add: getSuccessRate_def h fresh_metric_def)
  show ?thesis
    using h o len rec rate by (simp add: completeSync_metrics completeSync_other fresh_metric_def)
qed


theorem C10_witness:
  "wf_collector one_success \<and> startSync 10 one_success = (1, snd (startSync 10 one_success))
   \<and> history one_success = [\<lparr> startTime = 0, endTime = Some 5, duration = Some 5, fetchedCount = 0,
                        savedCount = 0, exportedCount = 0, success = True, error = None \<rparr>]
   \<and> getSuccessRate one_success = 100
   \<and> getSuccessRate (snd (startSync 10 one_success)) = 50
   \<and> last (getRecentMetrics 1 (snd (startSync 10 one_success))) = fresh_metric 10
   \<and> objects (completeSync 0 20 False None (snd (startSync 10 one_success))) ! 1 = fresh_metric 10"
proof -
  have wf: "wf_collector one_success"
    unfolding one_success_def by (intro wf_completeSync wf_startSync wf_newCollector)
  have s: "startSync 10 one_success = (1, snd (startSync 10 one_success))"
    by (simp add: startSync_def one_success_def newCollector_def Let_def completeSync_def modify_def)
  have h: "history one_success = [\<lparr> startTime = 0, endTime = Some 5, duration = Some 5, fetchedCount = 0,
                        savedCount = 0, exportedCount = 0, success = True, error = None \<rparr>]"
    by (simp add: startSync_def one_success_def newCollector_def Let_def completeSync_def modify_def
        history_def maxHistory_def)
  have k: "kept_history one_success = history one_success"
    by (simp add: kept_history_def h maxHistory_def)
  have r: "getSuccessRate one_success = 100" by (simp add: getSuccessRate_def h)
  show ?thesis
    using C10_in_flight_run_in_history [OF wf s, of 1 0 20 False None] wf s h r
    by (simp add: k)
qed

subsection \<open>Destination exporter\<close>

lemma zip_map_self: "zip xs (map f xs) = map (\<lambda>x. (x, f x)) xs"
  by (induction xs) auto

lemma countResults_counts:
  "countResults rs s f = (ev, s', f') \<Longrightarrow>
     s' = s + length (filter (\<lambda>p. snd p = Inr ()) rs)
   \<and> f' = f + length (filter (\<lambda>p. snd p \<noteq> Inr ()) rs)"
proof (induction rs s f arbitrary: ev s' f' rule: countResults.induct)
  case (1 s f)
  then show ?case by simp
next
  case (2 i u rs s f)
  then show ?case by (auto split: prod.splits)
next
  case (3 i e rs s f)
  then show ?case by (auto split: prod.splits)
qed

lemma countResults_failed:
  "countResults rs s f = (ev, s', f') \<Longrightarrow> (i, Inl e) \<in> set rs \<Longrightarrow> Error_SheetFailed i e \<in> set ev"
proof (induction rs s f arbitrary: ev s' f' rule: countResults.induct)
  case (1 s f)
  then show ?case by simp
next
  case (2 j u rs s f)
  then show ?case by (auto split: prod.splits)
next
  case (3 j e' rs s f)
  then show ?case by (auto split: prod.splits)
qed

lemma filter_all_length: "length (filter P xs) = length xs \<longleftrightarrow> (\<forall>x\<in>set xs. P x)"
proof (induction xs)
  case Nil
  then show ?case by simp
next
  case (Cons x xs)
  have le: "length (filter P xs) \<le> length xs" by simp
  show ?case
  proof (cases "P x")
    case True
    then show ?thesis using Cons by simp
  next
    case False
    have "length (filter P xs) \<noteq> Suc (length xs)" using le by linarith
    then show ?thesis using False by simp
  qed
qed

lemma updateAllSpreadsheets_nonempty:
  assumes "ids \<noteq> []"
  shows "\<exists>ev1.
     countResults (map (\<lambda>i. (i, publish_result cf uf n dl rows i)) ids) 0 0
       = (ev1, length (filter (\<lambda>i. publish_result cf uf n dl rows i = Inr ()) ids),
               length (filter (\<lambda>i. publish_result cf uf n dl rows i \<noteq> Inr ()) ids))
   \<and> updateAllSpreadsheets (Inr ids) cf uf n dl rows =
      ([Call_DbSelectIds] @ concat (map (\<lambda>i. fst (updateSpreadsheet cf uf n dl i rows)) ids) @ ev1
         @ [Info_Summary (length (filter (\<lambda>i. publish_result cf uf n dl rows i = Inr ()) ids))
                         (length (filter (\<lambda>i. publish_result cf uf n dl rows i \<noteq> Inr ()) ids))
                         (length ids)],
       if (\<forall>i\<in>set ids. publish_result cf uf n dl rows i \<noteq> Inr ())
       then Inl (GoogleSheetsError ''All spreadsheet updates failed'') else Inr ())"
proof -
  obtain ev1 s f where c: "countResults (map (\<lambda>i. (i, publish_result cf uf n dl rows i)) ids) 0 0 = (ev1, s, f)"
    by (metis prod_cases3)
  have sf: "s = length (filter (\<lambda>i. publish_result cf uf n dl rows i = Inr ()) ids)"
      "f = length (filter (\<lambda>i. publish_result cf uf n dl rows i \<noteq> Inr ()) ids)"
    using countResults_counts [OF c] by (simp_all add: filter_map comp_def)
  have z: "zip ids (map (\<lambda>i. snd (updateSpreadsheet cf uf n dl i rows)) ids)
            = map (\<lambda>i. (i, publish_result cf uf n dl rows i)) ids"
    by (simp add: zip_map_self publish_result_def comp_def)
  have all: "(f = length ids) = (\<forall>i\<in>set ids. publish_result cf uf n dl rows i \<noteq> Inr ())"
    unfolding sf by (rule filter_all_length)
  show ?thesis
    using assms c all
    by (simp add: updateAllSpreadsheets_def getSpreadsheetIds_def Let_def z sf comp_def
        del: countResults.simps)
qed

text \<open>
  Claim C2. Over the registered destinations \<open>ids\<close>, \<^verbatim>\<open>updateAllSpreadsheets\<close> runs
  every per-destination update to its end, whatever the others do. With no
  destination it returns successfully after a warning. When every update fails it
  raises the error "All spreadsheet updates failed". When at least one update
  succeeds it returns successfully, also when others failed: each failure is
  logged with its destination, and the summary line carries the numbers of
  successes and failures.
\<close>

theorem C2_publishAll_aggregation:
  assumes "ids_query = Inr ids"
  shows "(ids = [] \<longrightarrow> updateAllSpreadsheets ids_query cf uf n dl rows = ([Call_DbSelectIds, Warn_NoSpreadsheets], Inr ()))
       \<and> (ids \<noteq> [] \<and> (\<forall>i\<in>set ids. publish_result cf uf n dl rows i \<noteq> Inr ()) \<longrightarrow>
            snd (updateAllSpreadsheets ids_query cf uf n dl rows) = Inl (GoogleSheetsError ''All spreadsheet updates failed''))
       \<and> ((\<exists>i\<in>set ids. publish_result cf uf n dl rows i = Inr ()) \<longrightarrow>
            snd (updateAllSpreadsheets ids_query cf uf n dl rows) = Inr ())
       \<and> (ids \<noteq> [] \<longrightarrow>
            Info_Summary (length (filter (\<lambda>i. publish_result cf uf n dl rows i = Inr ()) ids))
                         (length (filter (\<lambda>i. publish_result cf uf n dl rows i \<noteq> Inr ()) ids))
                         (length ids) \<in> set (fst (updateAllSpreadsheets ids_query cf uf n dl rows)))
       \<and> (\<forall>i\<in>set ids. set (fst (updateSpreadsheet cf uf n dl i rows))
                           \<subseteq> set (fst (updateAllSpreadsheets ids_query cf uf n dl rows)))
       \<and> (\<forall>i\<in>set ids. \<forall>e. publish_result cf uf n dl rows i = Inl e \<longrightarrow>
             Error_SheetFailed i e \<in> set (fst (updateAllSpreadsheets ids_query cf uf n dl rows)))"
proof (cases "ids = []")
  case True
  then show ?thesis
    using assms by (simp add: updateAllSpreadsheets_def getSpreadsheetIds_def)
next
  case False
  obtain ev1 where c: "countResults (map (\<lambda>i. (i, publish_result cf uf n dl rows i)) ids) 0 0
       = (ev1, length (filter (\<lambda>i. publish_result cf uf n dl rows i = Inr ()) ids),
               length (filter (\<lambda>i. publish_result cf uf n dl rows i \<noteq> Inr ()) ids))"
    and u: "updateAllSpreadsheets (Inr ids) cf uf n dl rows =
      ([Call_DbSelectIds] @ concat (map (\<lambda>i. fst (updateSpreadsheet cf uf n dl i rows)) ids) @ ev1
         @ [Info_Summary (length (filter (\<lambda>i. publish_result cf uf n dl rows i = Inr ()) ids))
                         (length (filter (\<lambda>i. publish_result cf uf n dl rows i \<noteq> Inr ()) ids))
                         (length ids)],
       if (\<forall>i\<in>set ids. publish_result cf uf n dl rows i \<noteq> Inr ())
       then Inl (GoogleSheetsError ''All spreadsheet updates failed'') else Inr ())"
    using updateAllSpreadsheets_nonempty [OF False, of cf uf n dl rows] by blast
  have logged: "\<forall>i\<in>set ids. \<forall>e. publish_result cf uf n dl rows i = Inl e \<longrightarrow> Error_SheetFailed i e \<in> set ev1"
  proof (intro ballI allI impI)
    fix i e assume "i \<in> set ids" and "publish_result cf uf n dl rows i = Inl e"
    then have "(i, Inl e) \<in> set (map (\<lambda>i. (i, publish_result cf uf n dl rows i)) ids)" by force
    then show "Error_SheetFailed i e \<in> set ev1" by (rule countResults_failed [OF c])
  qed
  show ?thesis
    using False logged unfolding assms u by auto
qed


lemma publish_first_attempt:
  assumes "validateSpreadsheetId i = Inr ()" and "1 \<le> n" and "cf i 1 = None" and "uf i 1 = None"
  shows "publish_result cf uf n dl rows i = Inr ()"
proof -
  have "snd (updateSpreadsheetInternal cf uf 1 i rows) = Inr ()"
    using assms(3,4) by (simp add: updateSpreadsheetInternal_def)
  then show ?thesis
    using assms(1,2) updateAttempts_ok [of 1 n cf uf i rows "()" dl None]
    by (simp add: publish_result_def updateSpreadsheet_def)
qed

lemma publish_never:
  assumes "validateSpreadsheetId i = Inr ()" and "1 \<le> n" and "\<forall>k. cf i k = Some (f k)"
  shows "\<exists>e. publish_result cf uf n dl rows i = Inl e"
proof -
  have "\<forall>k. 1 \<le> k \<and> k \<le> n \<longrightarrow> snd (updateSpreadsheetInternal cf uf k i rows) = Inl (sheets_error i (f k))"
    using assms(3) by (simp add: updateSpreadsheetInternal_def)
  then show ?thesis
    using updateAttempts_exhausted [where cf = cf and uf = uf and i = i and rows = rows and a = 1 and n = n
        and es = "\<lambda>k. sheets_error i (f k)" and dl = dl and le = None] assms(1,2)
    by (simp add: publish_result_def updateSpreadsheet_def)
qed

theorem C2_witness:
  "snd (updateAllSpreadsheets (Inr three_sheets) sheet_B_denied sheet_fine SHEETS_MAX_RETRIES SHEETS_RETRY_DELAY
          ([] :: TariffExportRow list)) = Inr ()
   \<and> Info_Summary 2 1 3 \<in> set (fst (updateAllSpreadsheets (Inr three_sheets) sheet_B_denied sheet_fine
          SHEETS_MAX_RETRIES SHEETS_RETRY_DELAY ([] :: TariffExportRow list)))
   \<and> snd (updateAllSpreadsheets (Inr three_sheets) sheet_denied sheet_fine SHEETS_MAX_RETRIES SHEETS_RETRY_DELAY
          ([] :: TariffExportRow list)) = Inl (GoogleSheetsError ''All spreadsheet updates failed'')
   \<and> updateAllSpreadsheets (Inr []) sheet_denied sheet_fine SHEETS_MAX_RETRIES SHEETS_RETRY_DELAY
          ([] :: TariffExportRow list) = ([Call_DbSelectIds, Warn_NoSpreadsheets], Inr ())"
proof -
  let ?A = "''sheet-A-0123456789abcdef''" and ?B = "''sheet-B-0123456789abcdef''"
    and ?C = "''sheet-C-0123456789abcdef''"
  let ?rows = "[] :: TariffExportRow list"
  have n: "1 \<le> SHEETS_MAX_RETRIES" by (simp add: SHEETS_MAX_RETRIES_def)
  have v: "validateSpreadsheetId ?A = Inr ()" "validateSpreadsheetId ?B = Inr ()"
      "validateSpreadsheetId ?C = Inr ()"
    by (simp_all add: validateSpreadsheetId_def trim_def is_space_def)
  have pA: "publish_result sheet_B_denied sheet_fine SHEETS_MAX_RETRIES SHEETS_RETRY_DELAY ?rows ?A = Inr ()"
    by (rule publish_first_attempt [OF v(1) n]) (simp_all add: sheet_B_denied_def sheet_fine_def)
  have pC: "publish_result sheet_B_denied sheet_fine SHEETS_MAX_RETRIES SHEETS_RETRY_DELAY ?rows ?C = Inr ()"
    by (rule publish_first_attempt [OF v(3) n]) (simp_all add: sheet_B_denied_def sheet_fine_def)
  have nB: "\<forall>k. sheet_B_denied ?B k = Some (Some 403, ''forbidden'')"
    by (simp add: sheet_B_denied_def)
  have nD: "\<forall>k. sheet_denied i k = Some (Some 403, ''forbidden'')" for i
    by (simp add: sheet_denied_def)
  obtain eB where pB: "publish_result sheet_B_denied sheet_fine SHEETS_MAX_RETRIES SHEETS_RETRY_DELAY ?rows ?B = Inl eB"
    using publish_never [where rows = ?rows and uf = sheet_fine and dl = SHEETS_RETRY_DELAY and cf = sheet_B_denied
        and f = "\<lambda>k. (Some 403, ''forbidden'')", OF v(2) n nB]
    by blast
  obtain e1 where p1: "publish_result sheet_denied sheet_fine SHEETS_MAX_RETRIES SHEETS_RETRY_DELAY ?rows ?A = Inl e1"
    using publish_never [where rows = ?rows and uf = sheet_fine and dl = SHEETS_RETRY_DELAY and cf = sheet_denied
        and f = "\<lambda>k. (Some 403, ''forbidden'')", OF v(1) n nD]
    by blast
  obtain e2 where p2: "publish_result sheet_denied sheet_fine SHEETS_MAX_RETRIES SHEETS_RETRY_DELAY ?rows ?B = Inl e2"
    using publish_never [where rows = ?rows and uf = sheet_fine and dl = SHEETS_RETRY_DELAY and cf = sheet_denied
        and f = "\<lambda>k. (Some 403, ''forbidden'')", OF v(2) n nD]
    by blast
  obtain e3 where p3: "publish_result sheet_denied sheet_fine SHEETS_MAX_RETRIES SHEETS_RETRY_DELAY ?rows ?C = Inl e3"
    using publish_never [where rows = ?rows and uf = sheet_fine and dl = SHEETS_RETRY_DELAY and cf = sheet_denied
        and f = "\<lambda>k. (Some 403, ''forbidden'')", OF v(3) n nD]
    by blast
  show ?thesis
    using C2_publishAll_aggregation [of "Inr three_sheets" three_sheets sheet_B_denied sheet_fine
        SHEETS_MAX_RETRIES SHEETS_RETRY_DELAY ?rows]
      C2_publishAll_aggregation [of "Inr three_sheets" three_sheets sheet_denied sheet_fine
        SHEETS_MAX_RETRIES SHEETS_RETRY_DELAY ?rows]
      C2_publishAll_aggregation [of "Inr []" "[]" sheet_denied sheet_fine
        SHEETS_MAX_RETRIES SHEETS_RETRY_DELAY ?rows]
    by (simp add: three_sheets_def pA pB pC p1 p2 p3 numeral_2_eq_2 numeral_3_eq_3)
qed

subsection \<open>Tariff store\<close>

lemma db_begins_append: "db_begins (xs @ ys) = db_begins xs + db_begins ys"
  by (induction xs rule: db_begins.induct) auto

lemma insertChunk_append:
  "insertChunk db now (xs @ ys) tbl = insertChunk db now ys (insertChunk db now xs tbl)"
  by (simp add: insertChunk_def)

lemma upsertChunks_done:
  "length ts \<le> i \<Longrightarrow> upsertChunks cf db now ts i trx = ([], Inr trx)"
  by (subst upsertChunks.simps) simp

lemma upsertChunks_fail_here:
  "i < length ts \<Longrightarrow> cf i = Some m \<Longrightarrow>
   upsertChunks cf db now ts i trx = ([Call_DbInsertChunk i (length (take chunkSize (drop i ts)))], Inl m)"
  by (subst upsertChunks.simps) (simp add: Let_def)

lemma upsertChunks_step:
  "i < length ts \<Longrightarrow> cf i = None \<Longrightarrow>
   upsertChunks cf db now ts i trx =
     (Call_DbInsertChunk i (length (take chunkSize (drop i ts)))
        # fst (upsertChunks cf db now ts (i + chunkSize) (insertChunk db now (take chunkSize (drop i ts)) trx)),
      snd (upsertChunks cf db now ts (i + chunkSize) (insertChunk db now (take chunkSize (drop i ts)) trx)))"
  by (subst upsertChunks.simps) (simp add: Let_def)

lemma upsertChunks_result:
  "(\<exists>m j. snd (upsertChunks cf db now ts i trx) = Inl m \<and> cf j = Some m \<and> i \<le> j \<and> j < length ts)
   \<or> snd (upsertChunks cf db now ts i trx) = Inr (insertChunk db now (drop i ts) trx)"
proof (induction cf db now ts i trx rule: upsertChunks.induct)
  case (1 cf db now ts i trx)
  show ?case
  proof (cases "i < length ts")
    case False
    then show ?thesis by (simp add: upsertChunks_done insertChunk_def)
  next
    case True
    show ?thesis
    proof (cases "cf i")
      case (Some m)
      then show ?thesis using True by (auto simp: upsertChunks_fail_here)
    next
      case None
      let ?chunk = "take chunkSize (drop i ts)"
      have d: "drop i ts = ?chunk @ drop (i + chunkSize) ts"
        by (simp add: add.commute [of i chunkSize] flip: drop_drop)
      have ih: "(\<exists>m j. snd (upsertChunks cf db now ts (i + chunkSize) (insertChunk db now ?chunk trx)) = Inl m
                    \<and> cf j = Some m \<and> i + chunkSize \<le> j \<and> j < length ts)
           \<or> snd (upsertChunks cf db now ts (i + chunkSize) (insertChunk db now ?chunk trx))
               = Inr (insertChunk db now (drop (i + chunkSize) ts) (insertChunk db now ?chunk trx))"
        using "1.IH" [OF True refl None] by simp
      have app: "insertChunk db now (drop (i + chunkSize) ts) (insertChunk db now ?chunk trx)
                 = insertChunk db now (drop i ts) trx"
        by (subst (2) d) (simp add: insertChunk_append)
      show ?thesis
      proof (rule disjE [OF ih])
        assume "\<exists>m j. snd (upsertChunks cf db now ts (i + chunkSize) (insertChunk db now ?chunk trx)) = Inl m
                    \<and> cf j = Some m \<and> i + chunkSize \<le> j \<and> j < length ts"
        then obtain m j where mj:
          "snd (upsertChunks cf db now ts (i + chunkSize) (insertChunk db now ?chunk trx)) = Inl m"
          "cf j = Some m" "i + chunkSize \<le> j" "j < length ts" by blast
        have "i \<le> j" using mj(3) by simp
        then show ?thesis
          using mj unfolding upsertChunks_step [where cf = cf, OF True None] by auto
      next
        assume "snd (upsertChunks cf db now ts (i + chunkSize) (insertChunk db now ?chunk trx))
               = Inr (insertChunk db now (drop (i + chunkSize) ts) (insertChunk db now ?chunk trx))"
        then show ?thesis
          unfolding upsertChunks_step [where cf = cf, OF True None] app by simp
      qed
    qed
  qed
qed

lemma upsertChunks_no_failure:
  "\<forall>j. cf j = None \<Longrightarrow> snd (upsertChunks cf db now ts i trx) = Inr (insertChunk db now (drop i ts) trx)"
  using upsertChunks_result [of cf db now ts i trx] by auto

lemma upsertChunks_some_failure:
  "cf (i + k * chunkSize) \<noteq> None \<Longrightarrow> i + k * chunkSize < length ts \<Longrightarrow>
   \<exists>m. snd (upsertChunks cf db now ts i trx) = Inl m"
proof (induction k arbitrary: i trx)
  case 0
  then show ?case by (auto simp: upsertChunks_fail_here)
next
  case (Suc k)
  have lt: "i < length ts" using Suc.prems(2) by simp
  show ?case
  proof (cases "cf i")
    case (Some m)
    then show ?thesis using lt by (auto simp: upsertChunks_fail_here)
  next
    case None
    have "\<exists>m. snd (upsertChunks cf db now ts (i + chunkSize) (insertChunk db now (take chunkSize (drop i ts)) trx)) = Inl m"
      using Suc.prems by (intro Suc.IH) (simp_all add: algebra_simps)
    then show ?thesis by (simp add: upsertChunks_step [where cf = cf, OF lt None])
  qed
qed

lemma upsertChunks_no_begin: "db_begins (fst (upsertChunks cf db now ts i trx)) = 0"
proof (induction cf db now ts i trx rule: upsertChunks.induct)
  case (1 cf db now ts i trx)
  show ?case
  proof (cases "i < length ts")
    case False
    then show ?thesis by (simp add: upsertChunks_done)
  next
    case True
    show ?thesis
    proof (cases "cf i")
      case (Some m)
      then show ?thesis using True by (simp add: upsertChunks_fail_here)
    next
      case None
      then show ?thesis using "1.IH" [OF True refl None] by (simp add: upsertChunks_step [where cf = cf, OF True None])
    qed
  qed
qed


lemma upsertTariffs_ok:
  "ts \<noteq> [] \<Longrightarrow> \<forall>j. cf j = None \<Longrightarrow>
   \<exists>ev. upsertTariffs None cf None db now ts tbl = (ev, Inr (), insertChunk db now ts tbl)"
  using upsertChunks_no_failure [of cf db now ts 0 tbl]
  by (cases "upsertChunks cf db now ts 0 tbl") (auto simp: upsertTariffs_def)

text \<open>
  Claim C3. \<^verbatim>\<open>upsertTariffs\<close> on an empty list warns, returns and leaves the
  table as it is. On a non-empty list it opens exactly one transaction, and the
  committed table afterwards is either the old one, with an error raised, or the
  old one with every record applied, with success: nothing in between, however
  many chunks the list makes. When the statement of any chunk fails, the
  transaction is rolled back, the table is unchanged and a \<open>DatabaseError\<close> wrapping
  the driver's message is raised; when nothing fails, all records are applied.
\<close>

theorem C3_upsert_all_or_nothing:
  "upsertTariffs bf cf cmf db now [] tbl = ([Warn_EmptyUpsert], Inr (), tbl)
   \<and> (ts \<noteq> [] \<longrightarrow>
        (case upsertTariffs bf cf cmf db now ts tbl of (ev, r, tbl') \<Rightarrow>
            db_begins ev = 1
          \<and> ((r = Inr () \<and> tbl' = insertChunk db now ts tbl) \<or> ((\<exists>e. r = Inl e) \<and> tbl' = tbl))))
   \<and> (ts \<noteq> [] \<and> bf = None \<and> k * chunkSize < length ts \<and> cf (k * chunkSize) \<noteq> None \<longrightarrow>
        (\<exists>ev m. upsertTariffs bf cf cmf db now ts tbl
                  = (ev, Inl (DatabaseError (''Failed to upsert tariffs: '' @ m)), tbl)
               \<and> Call_DbRollback \<in> set ev))
   \<and> (ts \<noteq> [] \<and> bf = None \<and> cmf = None \<and> (\<forall>j. cf j = None) \<longrightarrow>
        (\<exists>ev. upsertTariffs bf cf cmf db now ts tbl = (ev, Inr (), insertChunk db now ts tbl)))"
proof -
  have a: "upsertTariffs bf cf cmf db now [] tbl = ([Warn_EmptyUpsert], Inr (), tbl)"
    by (simp add: upsertTariffs_def)
  have b: "ts \<noteq> [] \<longrightarrow>
        (case upsertTariffs bf cf cmf db now ts tbl of (ev, r, tbl') \<Rightarrow>
            db_begins ev = 1
          \<and> ((r = Inr () \<and> tbl' = insertChunk db now ts tbl) \<or> ((\<exists>e. r = Inl e) \<and> tbl' = tbl)))"
    using upsertChunks_result [of cf db now ts 0 tbl] upsertChunks_no_begin [of cf db now ts 0 tbl]
    by (cases "upsertChunks cf db now ts 0 tbl")
       (auto simp: upsertTariffs_def db_begins_append split: option.splits sum.splits)
  have c: "ts \<noteq> [] \<and> bf = None \<and> k * chunkSize < length ts \<and> cf (k * chunkSize) \<noteq> None \<longrightarrow>
        (\<exists>ev m. upsertTariffs bf cf cmf db now ts tbl
                  = (ev, Inl (DatabaseError (''Failed to upsert tariffs: '' @ m)), tbl)
               \<and> Call_DbRollback \<in> set ev)"
    using upsertChunks_some_failure [of cf 0 k ts db now tbl]
    by (cases "upsertChunks cf db now ts 0 tbl") (auto simp: upsertTariffs_def)
  have d: "ts \<noteq> [] \<and> bf = None \<and> cmf = None \<and> (\<forall>j. cf j = None) \<longrightarrow>
        (\<exists>ev. upsertTariffs bf cf cmf db now ts tbl = (ev, Inr (), insertChunk db now ts tbl))"
    using upsertChunks_no_failure [of cf db now ts 0 tbl]
    by (cases "upsertChunks cf db now ts 0 tbl") (auto simp: upsertTariffs_def)
  show ?thesis using a b c d by blast
qed

theorem C3_witness:
  "upsertTariffs None always_fails None 7 9 [] [stored ''2025-01-20'' ''B'' (Some 3)]
     = ([Warn_EmptyUpsert], Inr (), [stored ''2025-01-20'' ''B'' (Some 3)])
   \<and> (\<exists>ev m. upsertTariffs None always_fails None 7 9 [box_A, box_A'] [stored ''2025-01-20'' ''B'' (Some 3)]
         = (ev, Inl (DatabaseError (''Failed to upsert tariffs: '' @ m)), [stored ''2025-01-20'' ''B'' (Some 3)])
        \<and> Call_DbRollback \<in> set ev)
   \<and> (\<exists>ev. upsertTariffs None never_fails None 7 9 [box_A] [stored ''2025-01-20'' ''B'' (Some 3)]
         = (ev, Inr (), insertChunk 7 9 [box_A] [stored ''2025-01-20'' ''B'' (Some 3)]))"
  using C3_upsert_all_or_nothing [of None always_fails None 7 9 "[stored ''2025-01-20'' ''B'' (Some 3)]"
      "[box_A, box_A']" 0]
    C3_upsert_all_or_nothing [of None never_fails None 7 9 "[stored ''2025-01-20'' ''B'' (Some 3)]"
      "[box_A]" 0]
  by (simp add: always_fails_def never_fails_def chunkSize_def)

lemma same_key_row_key: "same_key r t \<longleftrightarrow> row_key r = row_key t"
  by (auto simp: same_key_def row_key_def)

lemma keys_insertOnConflictMerge:
  "map row_key (insertOnConflictMerge db now t tbl) =
     (if row_key t \<in> set (map row_key tbl) then map row_key tbl else map row_key tbl @ [row_key t])"
  by (induction tbl) (auto simp: same_key_def row_key_def)

lemma unique_insertOnConflictMerge:
  "unique_keys tbl \<Longrightarrow> unique_keys (insertOnConflictMerge db now t tbl)"
  by (simp add: unique_keys_def keys_insertOnConflictMerge)

lemma other_insertOnConflictMerge:
  "row_key t \<noteq> k \<Longrightarrow>
   filter (\<lambda>r. row_key r = k) (insertOnConflictMerge db now t tbl) = filter (\<lambda>r. row_key r = k) tbl"
  by (induction tbl) (auto simp: same_key_def row_key_def)

lemma merged_row:
  assumes "same_key r t"
  shows "BoxTariff.truncate (r\<lparr> geo_name := geo_name t,
              box_delivery_base := box_delivery_base t,
              box_delivery_liter := box_delivery_liter t,
              box_delivery_coef := box_delivery_coef t,
              box_delivery_marketplace_base := box_delivery_marketplace_base t,
              box_delivery_marketplace_liter := box_delivery_marketplace_liter t,
              box_delivery_marketplace_coef := box_delivery_marketplace_coef t,
              box_storage_base := box_storage_base t,
              box_storage_liter := box_storage_liter t,
              box_storage_coef := box_storage_coef t,
              updated_at := now \<rparr>) = (t :: BoxTariff)"
  using assms by (cases r, cases t) (simp add: BoxTariff.truncate_def same_key_def)

lemma inserted_row:
  "BoxTariff.truncate \<lparr> warehouse_name = warehouse_name t,
        geo_name = geo_name t,
        box_delivery_coef = box_delivery_coef t,
        box_delivery_base = box_delivery_base t,
        box_delivery_liter = box_delivery_liter t,
        box_storage_coef = box_storage_coef t,
        box_storage_base = box_storage_base t,
        box_storage_liter = box_storage_liter t,
        date = date t,
        box_delivery_marketplace_base = box_delivery_marketplace_base t,
        box_delivery_marketplace_liter = box_delivery_marketplace_liter t,
        box_delivery_marketplace_coef = box_delivery_marketplace_coef t,
        created_at = db,
        updated_at = now \<rparr> = (t :: BoxTariff)"
  by (cases t) (simp add: BoxTariff.truncate_def)

lemma own_insertOnConflictMerge:
  "unique_keys tbl \<Longrightarrow>
   \<exists>r. filter (\<lambda>r. row_key r = row_key t) (insertOnConflictMerge db now t tbl) = [r]
      \<and> BoxTariff.truncate r = t \<and> updated_at r = now
      \<and> created_at r = (case filter (\<lambda>r. row_key r = row_key t) tbl of [] \<Rightarrow> db | r0 # _ \<Rightarrow> created_at r0)"
proof (induction tbl)
  case Nil
  show ?case
    using inserted_row [of t db now] by (simp add: row_key_def)
next
  case (Cons a tbl)
  then have u: "unique_keys tbl" and na: "row_key a \<notin> set (map row_key tbl)"
    by (simp_all add: unique_keys_def)
  show ?case
  proof (cases "same_key a t")
    case True
    then have k: "row_key a = row_key t" by (simp add: same_key_row_key)
    have none: "filter (\<lambda>r. row_key r = row_key t) tbl = []"
    proof -
      have "\<forall>x\<in>set tbl. row_key x \<noteq> row_key t"
      proof
        fix x assume "x \<in> set tbl"
        then have "row_key x \<in> set (map row_key tbl)" by simp
        then show "row_key x \<noteq> row_key t" using na k by metis
      qed
      then show ?thesis by (simp add: filter_empty_conv)
    qed
    show ?thesis
      using True merged_row [OF True, of now] none k
      by (simp add: row_key_def)
  next
    case False
    then have k: "row_key a \<noteq> row_key t" by (simp add: same_key_row_key)
    show ?thesis using False k Cons.IH [OF u] by simp
  qed
qed


lemma insertChunk_Cons:
  "insertChunk db now (x # xs) tbl = insertChunk db now xs (insertOnConflictMerge db now x tbl)"
  by (simp add: insertChunk_def)

lemma insertChunk_Nil: "insertChunk db now [] tbl = tbl"
  by (simp add: insertChunk_def)

lemma unique_insertChunk: "unique_keys tbl \<Longrightarrow> unique_keys (insertChunk db now ts tbl)"
  by (induction ts arbitrary: tbl) (simp_all add: insertChunk_Nil insertChunk_Cons unique_insertOnConflictMerge)

lemma keys_insertChunk:
  "set (map row_key (insertChunk db now ts tbl)) = set (map row_key tbl) \<union> set (map row_key ts)"
proof (induction ts arbitrary: tbl)
  case Nil
  then show ?case by (simp add: insertChunk_Nil)
next
  case (Cons x xs)
  show ?case
    unfolding insertChunk_Cons Cons.IH keys_insertOnConflictMerge by auto
qed

lemma other_insertChunk:
  "\<forall>x\<in>set ts. row_key x \<noteq> k \<Longrightarrow>
   filter (\<lambda>r. row_key r = k) (insertChunk db now ts tbl) = filter (\<lambda>r. row_key r = k) tbl"
  by (induction ts arbitrary: tbl) (simp_all add: insertChunk_Nil insertChunk_Cons other_insertOnConflictMerge)

lemma own_insertChunk:
  assumes "unique_keys tbl" and "distinct (map row_key ts)" and "t \<in> set ts"
  shows "\<exists>r. filter (\<lambda>r. row_key r = row_key t) (insertChunk db now ts tbl) = [r]
      \<and> BoxTariff.truncate r = t \<and> updated_at r = now
      \<and> created_at r = (case filter (\<lambda>r. row_key r = row_key t) tbl of [] \<Rightarrow> db | r0 # _ \<Rightarrow> created_at r0)"
  using assms
proof (induction ts arbitrary: tbl)
  case Nil
  then show ?case by simp
next
  case (Cons x xs)
  have u: "unique_keys (insertOnConflictMerge db now x tbl)"
    using Cons.prems(1) by (rule unique_insertOnConflictMerge)
  have dx: "distinct (map row_key xs)" and nx: "row_key x \<notin> set (map row_key xs)"
    using Cons.prems(2) by simp_all
  show ?case
  proof (cases "t = x")
    case True
    have "\<forall>y\<in>set xs. row_key y \<noteq> row_key t"
    proof
      fix y assume "y \<in> set xs"
      then have "row_key y \<in> set (map row_key xs)" by simp
      then show "row_key y \<noteq> row_key t" using nx True by metis
    qed
    then have "filter (\<lambda>r. row_key r = row_key t) (insertChunk db now (x # xs) tbl)
               = filter (\<lambda>r. row_key r = row_key t) (insertOnConflictMerge db now x tbl)"
      unfolding insertChunk_Cons by (rule other_insertChunk)
    then show ?thesis
      using own_insertOnConflictMerge [OF Cons.prems(1), of t db now] True by simp
  next
    case False
    then have tin: "t \<in> set xs" using Cons.prems(3) by simp
    then have "row_key t \<in> set (map row_key xs)" by simp
    then have ne: "row_key x \<noteq> row_key t" using nx by metis
    have same: "filter (\<lambda>r. row_key r = row_key t) (insertOnConflictMerge db now x tbl)
                = filter (\<lambda>r. row_key r = row_key t) tbl"
      using ne by (rule other_insertOnConflictMerge)
    show ?thesis
      using Cons.IH [OF u dx tin] unfolding insertChunk_Cons same .
  qed
qed

lemma upsertTariffs_cases:
  "case upsertTariffs bf cf cmf db now ts tbl of (ev, r, tbl') \<Rightarrow>
      (r = Inr () \<and> tbl' = insertChunk db now ts tbl) \<or> ((\<exists>e. r = Inl e) \<and> tbl' = tbl)"
  using upsertChunks_result [of cf db now ts 0 tbl]
  by (cases "upsertChunks cf db now ts 0 tbl")
     (auto simp: upsertTariffs_def insertChunk_Nil split: option.splits sum.splits)

lemma upsertTariffs_success:
  "upsertTariffs bf cf cmf db now ts tbl = (ev, Inr (), tbl') \<Longrightarrow> tbl' = insertChunk db now ts tbl"
  using upsertTariffs_cases [where bf = bf and cf = cf and cmf = cmf and db = db and now = now
      and ts = ts and tbl = tbl] by auto

lemma single_row_of_key:
  assumes "unique_keys tbl" and "k \<in> set (map row_key tbl)"
  shows "\<exists>r. filter (\<lambda>r. row_key r = k) tbl = [r]"
  using assms
proof (induction tbl)
  case Nil
  then show ?case by simp
next
  case (Cons a tbl)
  then have u: "unique_keys tbl" and na: "row_key a \<notin> set (map row_key tbl)"
    by (simp_all add: unique_keys_def)
  show ?case
  proof (cases "row_key a = k")
    case True
    have "\<forall>x\<in>set tbl. row_key x \<noteq> k"
    proof
      fix x assume "x \<in> set tbl"
      then have "row_key x \<in> set (map row_key tbl)" by simp
      then show "row_key x \<noteq> k" using na True by metis
    qed
    then have "filter (\<lambda>r. row_key r = k) tbl = []" by (simp add: filter_empty_conv)
    then show ?thesis using True by simp
  next
    case False
    then have "k \<in> set (map row_key tbl)" using Cons.prems(2) by auto
    then show ?thesis using Cons.IH [OF u] False by simp
  qed
qed

text \<open>
  Claim C6. Two successful calls of \<^verbatim>\<open>upsertTariffs\<close>, the first with a record
  \<open>t1\<close> and the second with a record \<open>t2\<close> of the same date and warehouse name, on a
  table that respects the unique constraint (the records of the second call have
  distinct keys, as one statement cannot update a row twice): after the first
  call and after the second the table has exactly one row of that key, and after
  the second every tariff column of it is the one of \<open>t2\<close>, null where \<open>t2\<close> has
  null, with the second call's \<^verbatim>\<open>updated_at\<close>; only \<^verbatim>\<open>created_at\<close>, which is no
  field of the incoming record, stays what it was.
\<close>

theorem C6_upsert_twice_last_writer_wins:
  assumes "unique_keys tbl"
    and "upsertTariffs bf1 cf1 cmf1 db1 now1 ts1 tbl = (ev1, Inr (), tbl1)"
    and "upsertTariffs bf2 cf2 cmf2 db2 now2 ts2 tbl1 = (ev2, Inr (), tbl2)"
    and "t1 \<in> set ts1" and "t2 \<in> set ts2" and "same_key t1 t2"
    and "distinct (map row_key ts2)"
  shows "\<exists>r1 r2. filter (\<lambda>r. same_key r t2) tbl1 = [r1]
              \<and> filter (\<lambda>r. same_key r t2) tbl2 = [r2]
              \<and> BoxTariff.truncate r2 = t2 \<and> updated_at r2 = now2 \<and> created_at r2 = created_at r1
              \<and> unique_keys tbl2"
proof -
  have e1: "tbl1 = insertChunk db1 now1 ts1 tbl" using assms(2) by (rule upsertTariffs_success)
  have e2: "tbl2 = insertChunk db2 now2 ts2 tbl1" using assms(3) by (rule upsertTariffs_success)
  have u1: "unique_keys tbl1" unfolding e1 using assms(1) by (rule unique_insertChunk)
  have u2: "unique_keys tbl2" unfolding e2 using u1 by (rule unique_insertChunk)
  have k: "row_key t1 = row_key t2" using assms(6) by (simp add: same_key_row_key)
  have "row_key t1 \<in> set (map row_key ts1)" using assms(4) by simp
  then have "row_key t2 \<in> set (map row_key tbl1)" unfolding e1 keys_insertChunk k by simp
  then obtain r1 where r1: "filter (\<lambda>r. row_key r = row_key t2) tbl1 = [r1]"
    using single_row_of_key [OF u1] by blast
  obtain r2 where r2: "filter (\<lambda>r. row_key r = row_key t2) tbl2 = [r2]"
      "BoxTariff.truncate r2 = t2" "updated_at r2 = now2"
      "created_at r2 = (case filter (\<lambda>r. row_key r = row_key t2) tbl1 of [] \<Rightarrow> db2 | r0 # _ \<Rightarrow> created_at r0)"
    using own_insertChunk [OF u1 assms(7) assms(5), of db2 now2] unfolding e2 by blast
  show ?thesis
    using r1 r2 u2 by (simp add: same_key_row_key)
qed

lemma geo_name_truncate: "geo_name (BoxTariff.truncate r) = geo_name r"
  by (simp add: BoxTariff.truncate_def)

theorem C6_witness:
  "\<exists>r1 r2. filter (\<lambda>r. same_key r box_A') (insertChunk 1 10 [box_A] []) = [r1]
      \<and> filter (\<lambda>r. same_key r box_A') (insertChunk 2 20 [box_A'] (insertChunk 1 10 [box_A] [])) = [r2]
      \<and> geo_name r1 = Some ''Region'' \<and> geo_name r2 = None
      \<and> BoxTariff.truncate r2 = box_A' \<and> updated_at r2 = 20 \<and> created_at r2 = created_at r1"
proof -
  obtain ev1 where c1: "upsertTariffs None never_fails None 1 10 [box_A] []
                          = (ev1, Inr (), insertChunk 1 10 [box_A] [])"
    using upsertTariffs_ok [of "[box_A]" never_fails 1 10 "[]"] by (auto simp: never_fails_def)
  obtain ev2 where c2: "upsertTariffs None never_fails None 2 20 [box_A'] (insertChunk 1 10 [box_A] [])
                          = (ev2, Inr (), insertChunk 2 20 [box_A'] (insertChunk 1 10 [box_A] []))"
    using upsertTariffs_ok [of "[box_A']" never_fails 2 20 "insertChunk 1 10 [box_A] []"]
    by (auto simp: never_fails_def)
  have u: "unique_keys []" by (simp add: unique_keys_def)
  have k: "same_key box_A box_A'" by (simp add: same_key_def box_A'_def)
  have g: "geo_name box_A' = None" by (simp add: box_A'_def)
  have f1: "map geo_name (filter (\<lambda>r. same_key r box_A') (insertChunk 1 10 [box_A] [])) = [Some ''Region'']"
    by (simp add: insertChunk_def same_key_def box_A_def box_A'_def)
  obtain r1 r2 where r: "filter (\<lambda>r. same_key r box_A') (insertChunk 1 10 [box_A] []) = [r1]"
      "filter (\<lambda>r. same_key r box_A') (insertChunk 2 20 [box_A'] (insertChunk 1 10 [box_A] [])) = [r2]"
      "BoxTariff.truncate r2 = box_A'" "updated_at r2 = 20" "created_at r2 = created_at r1"
    using C6_upsert_twice_last_writer_wins [OF u c1 c2 _ _ k] by auto
  have "geo_name r2 = None" using geo_name_truncate [of r2] r(3) g by simp
  moreover have "geo_name r1 = Some ''Region''" using f1 r(1) by simp
  ultimately show ?thesis using r by blast
qed

lemma order_key_le: "order_key r \<le> order_key s \<longleftrightarrow> export_order r s"
  by (auto simp: order_key_def export_order_def split: option.splits)

text \<open>
  Claim C5. When the query succeeds, \<^verbatim>\<open>getTariffsByDate\<close> returns exactly the
  export columns of the stored rows of that date, in the order \<open>export_order\<close>:
  coefficient ascending, rows without coefficient last, ties by warehouse name
  ascending. The witness is the example of the claim: B and C with coefficient 3
  and A without one come out as B, C, A.
\<close>

theorem C5_readSorted_order:
  "\<exists>rows. getTariffsByDate None tbl d = ([Call_DbSelectTariffs d], Inr rows)
      \<and> mset rows = mset (map TariffExportRow.truncate (filter (\<lambda>r. date r = d) tbl))
      \<and> sorted_wrt export_order rows"
proof -
  let ?rows = "sort_key order_key (map TariffExportRow.truncate (filter (\<lambda>r. date r = d) tbl))"
  have "sorted (map order_key ?rows)"
    by (rule sorted_sort_key)
  then have "sorted_wrt export_order ?rows"
    by (simp add: sorted_wrt_map order_key_le)
  then show ?thesis by (simp add: getTariffsByDate_def)
qed

theorem C5_witness:
  "getTariffsByDate None
     [stored ''2025-01-20'' ''A'' None, stored ''2025-01-20'' ''C'' (Some 3),
      stored ''2025-01-19'' ''D'' (Some 1), stored ''2025-01-20'' ''B'' (Some 3)] ''2025-01-20''
   = ([Call_DbSelectTariffs ''2025-01-20''],
      Inr [exported ''B'' (Some 3), exported ''C'' (Some 3), exported ''A'' None])
   \<and> sorted_wrt export_order [exported ''B'' (Some 3), exported ''C'' (Some 3), exported ''A'' None]"
proof -
  have e: "getTariffsByDate None
     [stored ''2025-01-20'' ''A'' None, stored ''2025-01-20'' ''C'' (Some 3),
      stored ''2025-01-19'' ''D'' (Some 1), stored ''2025-01-20'' ''B'' (Some 3)] ''2025-01-20''
   = ([Call_DbSelectTariffs ''2025-01-20''],
      Inr [exported ''B'' (Some 3), exported ''C'' (Some 3), exported ''A'' None])"
    by (simp add: getTariffsByDate_def stored_def exported_def TariffExportRow.truncate_def order_key_def
        less_eq_char_def less_char_def)
  show ?thesis
    using C5_readSorted_order [of "[stored ''2025-01-20'' ''A'' None, stored ''2025-01-20'' ''C'' (Some 3),
      stored ''2025-01-19'' ''D'' (Some 1), stored ''2025-01-20'' ''B'' (Some 3)]" "''2025-01-20''"]
    unfolding e by simp
qed

subsection \<open>Sync orchestrator\<close>

lemma fetchAttempts_events:
  "list_all (\<lambda>ev. \<not> store_or_export_call ev) (fst (fetchAttempts api n dl d a le))"
proof (induction api n dl d a le rule: fetchAttempts.induct)
  case (1 api n dl d a le)
  show ?case
  proof (cases "a \<le> n")
    case False
    then show ?thesis by (simp add: fetchAttempts_over)
  next
    case True
    show ?thesis
    proof (cases "fetchWithTimeout (api d a)")
      case (Inr l)
      then show ?thesis using True by (simp add: fetchAttempts_ok)
    next
      case (Inl e)
      then show ?thesis
        using True "1.IH" [OF True Inl]
        by (simp add: fetchAttempts_retry [where api = api and d = d and a = a and e = e, OF True Inl])
    qed
  qed
qed

lemma fetchBoxTariffs_events:
  "list_all (\<lambda>ev. \<not> store_or_export_call ev) (fst (fetchBoxTariffs dp api n dl d))"
  by (cases "validateDate dp d") (simp_all add: fetchBoxTariffs_def fetchAttempts_events)

lemma startSync_last: "last (metrics (snd (startSync now c))) = length (objects c)"
  by (cases "metrics c") (auto simp: startSync_def Let_def maxHistory_def)

lemma startSync_nonempty: "metrics (snd (startSync now c)) \<noteq> []"
  by (cases "metrics c") (auto simp: startSync_def Let_def maxHistory_def)

text \<open>
  Claim C8. When the fetch returns an empty list, \<^verbatim>\<open>syncTariffs\<close> returns
  successfully right after it: the table is unchanged, no event of the run is a
  call to the database or to the sheets, and the run's entry, the last of the
  history, has the three counts at 0, \<^verbatim>\<open>success = true\<close>, no error, and its end
  time and duration set.
\<close>

theorem C8_zero_entries_short_circuit:
  assumes "fetchBoxTariffs (env_date_parses e) (env_api e) API_MAX_RETRIES API_RETRY_DELAY (env_today e)
             = (ev, Inr [])"
  shows "\<exists>w'. syncTariffs e w = (ev @ [Warn_NoTariffs], Inr (), w')
       \<and> table w' = table w
       \<and> list_all (\<lambda>ev. \<not> store_or_export_call ev) (ev @ [Warn_NoTariffs])
       \<and> metrics (collector w') = metrics (snd (startSync (env_start_time e) (collector w)))
       \<and> last (history (collector w'))
           = \<lparr> startTime = env_start_time e, endTime = Some (env_end_time e),
               duration = Some (env_end_time e - env_start_time e), fetchedCount = 0,
               savedCount = 0, exportedCount = 0, success = True, error = None \<rparr>"
proof -
  obtain ref c0 where s: "startSync (env_start_time e) (collector w) = (ref, c0)"
    by (cases "startSync (env_start_time e) (collector w)")
  have ref: "ref = length (objects (collector w))" and c0: "c0 = snd (startSync (env_start_time e) (collector w))"
    using s startSync_ref [of "env_start_time e" "collector w"] by simp_all
  have o: "objects c0 = objects (collector w) @ [fresh_metric (env_start_time e)]"
    unfolding c0 by (rule startSync_objects)
  have l: "last (metrics c0) = ref" and ne: "metrics c0 \<noteq> []"
    unfolding c0 ref by (rule startSync_last, rule startSync_nonempty)
  have evs: "list_all (\<lambda>ev. \<not> store_or_export_call ev) ev"
    using fetchBoxTariffs_events [of "env_date_parses e" "env_api e" API_MAX_RETRIES API_RETRY_DELAY "env_today e"]
      assms by simp
  let ?c = "completeSync ref (env_end_time e) True None (modify ref (\<lambda>m. m\<lparr> fetchedCount := 0 \<rparr>) c0)"
  have sync: "syncTariffs e w = (ev @ [Warn_NoTariffs], Inr (), \<lparr> table = table w, collector = ?c \<rparr>)"
    using assms s by (simp add: syncTariffs_def)
  have m: "metrics ?c = metrics c0"
    by (simp add: completeSync_def modify_def)
  have obj: "objects ?c ! ref = \<lparr> startTime = env_start_time e, endTime = Some (env_end_time e),
               duration = Some (env_end_time e - env_start_time e), fetchedCount = 0,
               savedCount = 0, exportedCount = 0, success = True, error = None \<rparr>"
    by (simp add: completeSync_def modify_def o ref fresh_metric_def Let_def)
  have "last (history ?c) = objects ?c ! ref"
    using ne l by (simp add: history_def m last_map)
  then show ?thesis
    using sync m obj evs c0 by simp
qed

theorem C8_witness:
  "\<exists>w'. syncTariffs empty_day world0
          = ([Call_ApiFetch ''2025-01-20'',
              Warn_AttemptFailed 1 3 ''WB API Error: Network error: socket hang up'',
              Call_Sleep 1000, Call_ApiFetch ''2025-01-20'', Warn_NoTariffs], Inr (), w')
       \<and> table w' = [stored ''2025-01-19'' ''B'' (Some 3)]
       \<and> last (history (collector w'))
           = \<lparr> startTime = 100, endTime = Some 1350, duration = Some 1250, fetchedCount = 0,
               savedCount = 0, exportedCount = 0, success = True, error = None \<rparr>"
proof -
  have v: "validateDate (\<lambda>d. True) ''2025-01-20'' = Inr ()"
    by (simp add: validateDate_def DATE_FORMAT_def is_digit_def)
  let ?api = "\<lambda>(d::string) (k::nat). if k = 1 then Http_Throw ''socket hang up'' else Http_Ok (Some [])"
  have a1: "fetchWithTimeout (?api ''2025-01-20'' 1) = Inl (WBApiError ''Network error: socket hang up'' 503)"
    by simp
  have a2: "fetchWithTimeout (?api ''2025-01-20'' (Suc 1)) = Inr []"
    by simp
  have s2: "fetchAttempts ?api 3 1000 ''2025-01-20'' (Suc 1)
              (Some (WBApiError ''Network error: socket hang up'' 503)) = ([Call_ApiFetch ''2025-01-20''], Inr [])"
    by (rule fetchAttempts_ok [where api = ?api, OF _ a2]) simp
  have s1: "fetchAttempts ?api 3 1000 ''2025-01-20'' 1 None
             = ([Call_ApiFetch ''2025-01-20'',
                 Warn_AttemptFailed 1 3 ''WB API Error: Network error: socket hang up'',
                 Call_Sleep 1000, Call_ApiFetch ''2025-01-20''], Inr [])"
    using s2
    by (subst fetchAttempts_retry [where api = ?api and e = "WBApiError ''Network error: socket hang up'' 503", OF _ a1])
       simp_all
  have f: "fetchBoxTariffs (env_date_parses empty_day) (env_api empty_day) API_MAX_RETRIES API_RETRY_DELAY
             (env_today empty_day)
           = ([Call_ApiFetch ''2025-01-20'',
              Warn_AttemptFailed 1 3 ''WB API Error: Network error: socket hang up'',
              Call_Sleep 1000, Call_ApiFetch ''2025-01-20''], Inr [])"
    using s1 by (simp add: fetchBoxTariffs_def empty_day_def v API_MAX_RETRIES_def API_RETRY_DELAY_def)
  show ?thesis
    using C8_zero_entries_short_circuit [OF f, of world0]
    by (auto simp: empty_day_def world0_def)
qed

subsection \<open>Scheduler\<close>

text \<open>
  Claim C1 at the input where the code departs from it. A tick starts a run and
  sets the flag; \<^verbatim>\<open>runImmediateSync\<close> called before that run settles is not
  skipped: it calls \<^verbatim>\<open>syncTariffs\<close> a second time, so two runs are in flight. When
  the first of them settles the flag is cleared although a run is still in
  flight, and the next tick starts another run beside it.
\<close>

theorem C1_runImmediateSync_not_skipped:
  "running (sched_run newScheduler [StartHourlySync, CronTick, RunImmediateSync]) = 2
   \<and> strace (sched_run newScheduler [StartHourlySync, CronTick, RunImmediateSync])
       = [Flag_Set, Invoke_syncTariffs, Flag_Set, Invoke_syncTariffs]
   \<and> syncInProgress (sched_run newScheduler [StartHourlySync, CronTick]) = True
   \<and> syncInProgress (sched_run newScheduler
         [StartHourlySync, CronTick, RunImmediateSync, SyncSettles (Inr ())]) = False
   \<and> running (sched_run newScheduler
         [StartHourlySync, CronTick, RunImmediateSync, SyncSettles (Inr ())]) = 1
   \<and> running (sched_run newScheduler
         [StartHourlySync, CronTick, RunImmediateSync, SyncSettles (Inr ()), CronTick]) = 2"
  by (simp add: sched_run_def newScheduler_def cronCallback_def runImmediateSync_def runSync_begin_def
      runSync_settle_def)

text \<open>
  What holds of the flag: \<^verbatim>\<open>runSync\<close> sets it before calling \<^verbatim>\<open>syncTariffs\<close> and
  clears it when the call settles, with success or with an error; a tick that
  finds it set is skipped with a log line; and as long as \<^verbatim>\<open>runImmediateSync\<close>
  is not called, at most one run is in flight, exactly when the flag is set.
\<close>

lemma runSync_clears_flag:
  "syncInProgress (runSync_settle r (runSync_begin s)) = False"
  by (simp add: runSync_settle_def runSync_begin_def)

lemma runSync_sets_flag:
  "syncInProgress (runSync_begin s) = True \<and> running (runSync_begin s) = Suc (running s)
   \<and> strace (runSync_begin s) = strace s @ [Flag_Set, Invoke_syncTariffs]"
  by (simp add: runSync_begin_def)

lemma cron_only_step:
  assumes "ev \<noteq> RunImmediateSync" and "running s = (if syncInProgress s then 1 else 0)"
  shows "running (sched_step s ev) = (if syncInProgress (sched_step s ev) then 1 else 0)"
  using assms
  by (cases ev) (auto simp: cronCallback_def runSync_begin_def runSync_settle_def)

lemma cron_only_exclusive:
  assumes "RunImmediateSync \<notin> set evs" and "running s = (if syncInProgress s then 1 else 0)"
  shows "running (sched_run s evs) = (if syncInProgress (sched_run s evs) then 1 else 0)"
  using assms
proof (induction evs arbitrary: s)
  case Nil
  then show ?case by (simp add: sched_run_def)
next
  case (Cons ev evs)
  have "running (sched_step s ev) = (if syncInProgress (sched_step s ev) then 1 else 0)"
    using Cons.prems by (intro cron_only_step) auto
  then have "running (sched_run (sched_step s ev) evs)
             = (if syncInProgress (sched_run (sched_step s ev) evs) then 1 else 0)"
    using Cons.prems(1) by (intro Cons.IH) auto
  then show ?case by (simp add: sched_run_def)
qed

lemma tick_skipped_while_in_progress:
  "syncInProgress s \<Longrightarrow> 0 < tasks s \<Longrightarrow>
   sched_step s CronTick = s\<lparr> strace := strace s @ [Log_Skipped] \<rparr>"
  by (simp add: cronCallback_def)

end
